theory Spec2Isabelle
  imports Complex_Main "HOL-Library.Sublist"
begin

section \<open>Data model\<close>

text \<open>
  The fifteen members of the enumeration \<open>QueryType\<close>, in declaration order, with the
  member's \<open>value\<close> and the text that \<open>str\<close> gives for it
  (\<open>ClassName.MEMBER\<close>).
\<close>

datatype QueryType =
    PROCEDURE | ARCHITECTURE | PROTOCOL | INTERFACE | SECURITY | PERFORMANCE | QOS
  | RELIABILITY | DEPLOYMENT | INTERWORKING | MIGRATION | TROUBLESHOOTING | COMPLIANCE
  | FEATURE | GENERAL

fun member_value :: "QueryType \<Rightarrow> string" where
  "member_value PROCEDURE = ''procedure''"
| "member_value ARCHITECTURE = ''architecture''"
| "member_value PROTOCOL = ''protocol''"
| "member_value INTERFACE = ''interface''"
| "member_value SECURITY = ''security''"
| "member_value PERFORMANCE = ''performance''"
| "member_value QOS = ''qos''"
| "member_value RELIABILITY = ''reliability''"
| "member_value DEPLOYMENT = ''deployment''"
| "member_value INTERWORKING = ''interworking''"
| "member_value MIGRATION = ''migration''"
| "member_value TROUBLESHOOTING = ''troubleshooting''"
| "member_value COMPLIANCE = ''compliance''"
| "member_value FEATURE = ''feature''"
| "member_value GENERAL = ''general''"

fun member_name :: "QueryType \<Rightarrow> string" where
  "member_name PROCEDURE = ''PROCEDURE''"
| "member_name ARCHITECTURE = ''ARCHITECTURE''"
| "member_name PROTOCOL = ''PROTOCOL''"
| "member_name INTERFACE = ''INTERFACE''"
| "member_name SECURITY = ''SECURITY''"
| "member_name PERFORMANCE = ''PERFORMANCE''"
| "member_name QOS = ''QOS''"
| "member_name RELIABILITY = ''RELIABILITY''"
| "member_name DEPLOYMENT = ''DEPLOYMENT''"
| "member_name INTERWORKING = ''INTERWORKING''"
| "member_name MIGRATION = ''MIGRATION''"
| "member_name TROUBLESHOOTING = ''TROUBLESHOOTING''"
| "member_name COMPLIANCE = ''COMPLIANCE''"
| "member_name FEATURE = ''FEATURE''"
| "member_name GENERAL = ''GENERAL''"

definition member_str :: "QueryType \<Rightarrow> string" where
  "member_str t = ''QueryType.'' @ member_name t"

text \<open>The position of a member in the declaration of the enumeration.\<close>

fun declaration_index :: "QueryType \<Rightarrow> nat" where
  "declaration_index PROCEDURE = 0"
| "declaration_index ARCHITECTURE = 1"
| "declaration_index PROTOCOL = 2"
| "declaration_index INTERFACE = 3"
| "declaration_index SECURITY = 4"
| "declaration_index PERFORMANCE = 5"
| "declaration_index QOS = 6"
| "declaration_index RELIABILITY = 7"
| "declaration_index DEPLOYMENT = 8"
| "declaration_index INTERWORKING = 9"
| "declaration_index MIGRATION = 10"
| "declaration_index TROUBLESHOOTING = 11"
| "declaration_index COMPLIANCE = 12"
| "declaration_index FEATURE = 13"
| "declaration_index GENERAL = 14"

text \<open>
  The three tier tags \<open>'high_priority'\<close>, \<open>'medium_priority'\<close> and \<open>'low_priority'\<close>
  are the only keys of the inner dictionaries of the keyword table and of \<open>weights\<close>;
  they are modelled as a datatype, so that \<open>weights[priority]\<close> is a total lookup.
\<close>

datatype priority = high_priority | medium_priority | low_priority

text \<open>
  A Python dictionary accepts keys of any hashable type. The dictionary
  \<open>keywords_matched\<close> of a classification is built with keys \<open>str(k)\<close>, while a
  reader of the classification may look an enumeration member up in it: both kinds of key
  are values of \<open>dict_key\<close>.
\<close>

datatype dict_key = Enum_key QueryType | Str_key string

type_synonym tier_matches = "(priority \<times> string list) list"

text \<open>
  Scores are Python floats in the source. They are modelled as exact rationals: with the
  keyword table below, the clamped scores that occur are \<open>0.3\<close>, \<open>0.6\<close>,
  \<open>0.6 + 0.3\<close> or \<open>3 * 0.3\<close> (both the double \<open>0.8999999999999999\<close>) and
  \<open>1.0\<close>, on which every comparison the program makes (\<open>> 0\<close>, \<open>> 0.3\<close>,
  \<open>min(score, 1.0)\<close>, the sort) has the same outcome as on the rationals
  \<open>3/10\<close>, \<open>6/10\<close>, \<open>9/10\<close> and \<open>1\<close>, and \<open>:.2f\<close> prints the same digits.
\<close>

record QueryClassification =
  primary_type :: QueryType
  secondary_types :: "QueryType set"
  confidence_score :: rat
  keywords_matched :: "(dict_key \<times> tier_matches) list"

section \<open>The keyword table\<close>

definition QUERY_KEYWORDS :: "(QueryType \<times> (priority \<times> string list) list) list" where
  "QUERY_KEYWORDS = [
    (PROCEDURE, [
      (high_priority, [''procedure'', ''process'', ''flow'', ''step'', ''sequence'', ''operation'']),
      (medium_priority, [''how to'', ''when'', ''trigger'', ''initiate'', ''handle'']),
      (low_priority, [''do'', ''perform'', ''execute''])]),
    (ARCHITECTURE, [
      (high_priority, [''architecture'', ''structure'', ''framework'', ''design'', ''topology'']),
      (medium_priority, [''component'', ''element'', ''node'', ''entity'', ''function'']),
      (low_priority, [''system'', ''network'', ''setup''])]),
    (PROTOCOL, [
      (high_priority, [''protocol'', ''signaling'', ''message'', ''packet'', ''format'']),
      (medium_priority, [''header'', ''payload'', ''encoding'', ''decoding'', ''stack'']),
      (low_priority, [''communicate'', ''exchange'', ''transfer''])]),
    (INTERFACE, [
      (high_priority, [''interface'', ''reference point'', ''connection'', ''link'']),
      (medium_priority, [''between'', ''connects to'', ''interconnection'']),
      (low_priority, [''connect'', ''communicate''])]),
    (SECURITY, [
      (high_priority, [''security'', ''authentication'', ''encryption'', ''integrity'', ''privacy'']),
      (medium_priority, [''protect'', ''secure'', ''cipher'', ''key'', ''credential'']),
      (low_priority, [''safe'', ''guard'', ''threat''])]),
    (PERFORMANCE, [
      (high_priority, [''performance'', ''throughput'', ''latency'', ''bandwidth'', ''capacity'']),
      (medium_priority, [''speed'', ''efficiency'', ''optimization'', ''metric'']),
      (low_priority, [''fast'', ''slow'', ''measure''])]),
    (QOS, [
      (high_priority, [''qos'', ''quality of service'', ''priority'', ''class'', ''bearer'']),
      (medium_priority, [''traffic'', ''flow'', ''guarantee'', ''requirement'']),
      (low_priority, [''quality'', ''service''])]),
    (RELIABILITY, [
      (high_priority, [''reliability'', ''availability'', ''redundancy'', ''resilience'']),
      (medium_priority, [''failover'', ''backup'', ''recovery'', ''robust'']),
      (low_priority, [''stable'', ''reliable'', ''maintain''])]),
    (DEPLOYMENT, [
      (high_priority, [''deployment'', ''installation'', ''configuration'', ''setup'']),
      (medium_priority, [''implement'', ''roll out'', ''provision'', ''integrate'']),
      (low_priority, [''deploy'', ''install'', ''configure''])]),
    (INTERWORKING, [
      (high_priority, [''interworking'', ''interoperability'', ''compatibility'', ''integration'']),
      (medium_priority, [''interact'', ''work together'', ''coordinate'']),
      (low_priority, [''between'', ''with''])]),
    (MIGRATION, [
      (high_priority, [''migration'', ''upgrade'', ''transition'', ''evolution'']),
      (medium_priority, [''move to'', ''change'', ''transform'']),
      (low_priority, [''new'', ''old'', ''legacy''])]),
    (TROUBLESHOOTING, [
      (high_priority, [''troubleshoot'', ''debug'', ''diagnose'', ''problem'', ''issue'']),
      (medium_priority, [''error'', ''fault'', ''failure'', ''fix'']),
      (low_priority, [''wrong'', ''fail'', ''break''])]),
    (COMPLIANCE, [
      (high_priority, [''compliance'', ''standard'', ''regulation'', ''requirement'']),
      (medium_priority, [''conform'', ''adhere'', ''follow'', ''meet'']),
      (low_priority, [''rule'', ''guideline'', ''specification''])]),
    (FEATURE, [
      (high_priority, [''feature'', ''capability'', ''functionality'', ''service'']),
      (medium_priority, [''support'', ''provide'', ''enable'', ''offer'']),
      (low_priority, [''can'', ''able'', ''function''])])]"

section \<open>Strings\<close>

text \<open>
  A string is a list of characters with codes \<open>0\<close> to \<open>255\<close>. On these code points
  \<open>str.lower\<close> works character by character: it adds 32 to the codes of \<open>A\<close> to \<open>Z\<close>
  and of the upper-case letters \<open>0xC0\<close> to \<open>0xDE\<close> (without the multiplication sign
  \<open>0xD7\<close>) and leaves every other code alone.
\<close>

definition lower_char :: "char \<Rightarrow> char" where
  "lower_char c =
     (let n = (of_char c :: nat)
      in if (65 \<le> n \<and> n \<le> 90) \<or> (192 \<le> n \<and> n \<le> 222 \<and> n \<noteq> 215)
         then char_of (n + 32) else c)"

definition lower :: "string \<Rightarrow> string" where
  "lower s = map lower_char s"

text \<open>
  \<open>keyword in query_lower\<close> on strings is containment as a contiguous substring, which
  is \<^const>\<open>sublist\<close>.
\<close>

section \<open>Keyword matching\<close>

text \<open>
  \<open>matches\<close> is a \<open>defaultdict\<close> of \<open>defaultdict(list)\<close>: an entry comes into being
  when it is first read. Dictionaries keep insertion order, so they are association
  lists with new keys added at the end. \<open>append_at k v d\<close> is \<open>d[k].append(v)\<close> and
  \<open>record_match t p kw m\<close> is \<open>m[t][p].append(kw)\<close>.
\<close>

fun append_at :: "'k \<Rightarrow> 'v \<Rightarrow> ('k \<times> 'v list) list \<Rightarrow> ('k \<times> 'v list) list" where
  "append_at k v [] = [(k, [v])]"
| "append_at k v ((k', vs) # d) =
     (if k = k' then (k', vs @ [v]) # d else (k', vs) # append_at k v d)"

fun record_match ::
  "QueryType \<Rightarrow> priority \<Rightarrow> string \<Rightarrow> (QueryType \<times> tier_matches) list
     \<Rightarrow> (QueryType \<times> tier_matches) list" where
  "record_match t p kw [] = [(t, append_at p kw [])]"
| "record_match t p kw ((t', d) # m) =
     (if t = t' then (t', append_at p kw d) # m else (t', d) # record_match t p kw m)"

definition scan_table ::
  "(QueryType \<times> (priority \<times> string list) list) list \<Rightarrow> string
     \<Rightarrow> (QueryType \<times> tier_matches) list \<Rightarrow> (QueryType \<times> tier_matches) list" where
  "scan_table table query_lower matches0 =
     fold (\<lambda>(query_type, priority_keywords) matches.
        fold (\<lambda>(priority, keywords) matches.
           fold (\<lambda>keyword matches.
              if sublist keyword query_lower
              then record_match query_type priority keyword matches
              else matches)
             keywords matches)
          priority_keywords matches)
       table matches0"

definition calculate_keyword_matches :: "string \<Rightarrow> (QueryType \<times> tier_matches) list" where
  "calculate_keyword_matches query =
     (let query_lower = lower query in scan_table QUERY_KEYWORDS query_lower [])"

section \<open>Confidence score\<close>

fun weights :: "priority \<Rightarrow> rat" where
  "weights high_priority = 1"
| "weights medium_priority = 6 / 10"
| "weights low_priority = 3 / 10"

definition calculate_confidence_score :: "tier_matches \<Rightarrow> rat" where
  "calculate_confidence_score matches =
     (let score = fold (\<lambda>(priority, keywords) score.
                          score + of_nat (length keywords) * weights priority) matches 0
      in min score 1)"

section \<open>Classification\<close>

text \<open>\<open>dict_set k v d\<close> is the assignment \<open>d[k] = v\<close> on an insertion-ordered dictionary.\<close>

fun dict_set :: "'k \<Rightarrow> 'v \<Rightarrow> ('k \<times> 'v) list \<Rightarrow> ('k \<times> 'v) list" where
  "dict_set k v [] = [(k, v)]"
| "dict_set k v ((k', v') # d) =
     (if k = k' then (k', v) # d else (k', v') # dict_set k v d)"

definition type_scores_of :: "(QueryType \<times> tier_matches) list \<Rightarrow> (QueryType \<times> rat) list" where
  "type_scores_of keyword_matches =
     fold (\<lambda>(query_type, matches) type_scores.
        let confidence = calculate_confidence_score matches
        in if confidence > 0 then dict_set query_type confidence type_scores else type_scores)
       keyword_matches []"

text \<open>
  \<open>sorted(..., key=lambda x: x[1], reverse=True)\<close> is a stable sort by descending score:
  items with equal scores keep their order. \<^const>\<open>sort_key\<close> is a stable insertion sort
  by ascending key, used here with the negated score.
\<close>

definition sorted_types_of :: "(QueryType \<times> rat) list \<Rightarrow> (QueryType \<times> rat) list" where
  "sorted_types_of type_scores = sort_key (\<lambda>x. - snd x) type_scores"

text \<open>
  The guard \<open>if not type_scores\<close> comes before the reads \<open>sorted_types[0]\<close> and
  \<open>sorted_types[1:]\<close>, so these are \<^const>\<open>hd\<close> and \<^const>\<open>tl\<close> of a list that lemma
  \<open>sorted_types_nonempty\<close> below shows to be non-empty.
\<close>

definition classify_query :: "string \<Rightarrow> QueryClassification" where
  "classify_query query =
     (let keyword_matches = calculate_keyword_matches query;
          type_scores = type_scores_of keyword_matches
      in if type_scores = []
         then \<lparr> primary_type = GENERAL, secondary_types = {}, confidence_score = 0,
                keywords_matched = [] \<rparr>
         else
           let sorted_types = sorted_types_of type_scores
           in \<lparr> primary_type = fst (hd sorted_types),
                secondary_types =
                  set (map fst (filter (\<lambda>(query_type, score). score > 3 / 10) (tl sorted_types))),
                confidence_score = snd (hd sorted_types),
                keywords_matched =
                  map (\<lambda>(k, v). (Str_key (member_str k), v))
                    (filter (\<lambda>(k, v). v \<noteq> []) keyword_matches) \<rparr>)"

section \<open>The context templates\<close>

text \<open>
  Each template is a triple-quoted literal that starts with a line break right after the
  opening quotes and ends with the indentation of the closing quotes. \<open>NL\<close> is
  \<open>chr(10)\<close>.
\<close>

abbreviation NL :: char where
  "NL \<equiv> CHR 0x0A"

definition PROCEDURE_CONTEXT :: string where
  "PROCEDURE_CONTEXT =
     [NL] @ ''        For procedure-related queries:'' @
     [NL] @ ''        - Provide a clear step-by-step breakdown'' @
     [NL] @ ''        - Include sequence diagrams if relevant'' @
     [NL] @ ''        - List all involved network elements'' @
     [NL] @ ''        - Detail message flows and parameters'' @
     [NL] @ ''        - Specify preconditions and postconditions'' @
     [NL] @ ''        - Highlight potential error scenarios'' @
     [NL] @ ''        - Reference relevant 3GPP specifications (TS documents)'' @
     [NL] @ ''        ''"

definition ARCHITECTURE_CONTEXT :: string where
  "ARCHITECTURE_CONTEXT =
     [NL] @ ''        For architecture-related queries:'' @
     [NL] @ ''        - Describe overall architecture structure'' @
     [NL] @ ''        - Detail component roles and responsibilities'' @
     [NL] @ ''        - Explain interfaces and reference points'' @
     [NL] @ ''        - Discuss deployment considerations'' @
     [NL] @ ''        - Include scalability aspects'' @
     [NL] @ ''        - Mention virtualization options'' @
     [NL] @ ''        - Reference relevant 3GPP specifications'' @
     [NL] @ ''        ''"

definition PROTOCOL_CONTEXT :: string where
  "PROTOCOL_CONTEXT =
     [NL] @ ''        For protocol-related queries:'' @
     [NL] @ ''        - Explain protocol stack placement'' @
     [NL] @ ''        - Detail message formats and fields'' @
     [NL] @ ''        - Describe state machines'' @
     [NL] @ ''        - List supported procedures'' @
     [NL] @ ''        - Include protocol parameters'' @
     [NL] @ ''        - Discuss protocol extensions'' @
     [NL] @ ''        - Reference relevant 3GPP specifications'' @
     [NL] @ ''        ''"

definition INTERFACE_CONTEXT :: string where
  "INTERFACE_CONTEXT =
     [NL] @ ''        For interface-related queries:'' @
     [NL] @ ''        - Define connected network elements'' @
     [NL] @ ''        - List supported protocols'' @
     [NL] @ ''        - Detail interface requirements'' @
     [NL] @ ''        - Explain message flows'' @
     [NL] @ ''        - Describe interface configuration'' @
     [NL] @ ''        - Include performance aspects'' @
     [NL] @ ''        - Reference relevant 3GPP specifications'' @
     [NL] @ ''        ''"

definition SECURITY_CONTEXT :: string where
  "SECURITY_CONTEXT =
     [NL] @ ''        For security-related queries:'' @
     [NL] @ ''        - Explain security mechanisms'' @
     [NL] @ ''        - Detail key management'' @
     [NL] @ ''        - Describe authentication flows'' @
     [NL] @ ''        - List security features'' @
     [NL] @ ''        - Include threat mitigations'' @
     [NL] @ ''        - Discuss privacy aspects'' @
     [NL] @ ''        - Reference relevant 3GPP specifications'' @
     [NL] @ ''        ''"

definition PERFORMANCE_CONTEXT :: string where
  "PERFORMANCE_CONTEXT =
     [NL] @ ''        For performance-related queries:'' @
     [NL] @ ''        - List key performance indicators'' @
     [NL] @ ''        - Provide measurement methods'' @
     [NL] @ ''        - Include benchmark data'' @
     [NL] @ ''        - Detail optimization options'' @
     [NL] @ ''        - Discuss scaling factors'' @
     [NL] @ ''        - Explain monitoring approaches'' @
     [NL] @ ''        - Reference relevant 3GPP specifications'' @
     [NL] @ ''        ''"

definition QOS_CONTEXT :: string where
  "QOS_CONTEXT =
     [NL] @ ''        For QoS-related queries:'' @
     [NL] @ ''        - Define QoS parameters'' @
     [NL] @ ''        - Explain QoS flows'' @
     [NL] @ ''        - Detail QoS handling'' @
     [NL] @ ''        - List QoS classes'' @
     [NL] @ ''        - Include mapping rules'' @
     [NL] @ ''        - Discuss enforcement methods'' @
     [NL] @ ''        - Reference relevant 3GPP specifications'' @
     [NL] @ ''        ''"

definition RELIABILITY_CONTEXT :: string where
  "RELIABILITY_CONTEXT =
     [NL] @ ''        For reliability-related queries:'' @
     [NL] @ ''        - Explain redundancy mechanisms'' @
     [NL] @ ''        - Detail failover procedures'' @
     [NL] @ ''        - Describe recovery methods'' @
     [NL] @ ''        - List availability features'' @
     [NL] @ ''        - Include monitoring aspects'' @
     [NL] @ ''        - Discuss SLA considerations'' @
     [NL] @ ''        - Reference relevant 3GPP specifications'' @
     [NL] @ ''        ''"

definition DEPLOYMENT_CONTEXT :: string where
  "DEPLOYMENT_CONTEXT =
     [NL] @ ''        For deployment-related queries:'' @
     [NL] @ ''        - Provide deployment options'' @
     [NL] @ ''        - List prerequisites'' @
     [NL] @ ''        - Detail configuration steps'' @
     [NL] @ ''        - Include best practices'' @
     [NL] @ ''        - Discuss scaling aspects'' @
     [NL] @ ''        - Explain maintenance procedures'' @
     [NL] @ ''        - Reference relevant 3GPP specifications'' @
     [NL] @ ''        ''"

definition INTERWORKING_CONTEXT :: string where
  "INTERWORKING_CONTEXT =
     [NL] @ ''        For interworking-related queries:'' @
     [NL] @ ''        - Explain interworking mechanisms'' @
     [NL] @ ''        - Detail protocol conversions'' @
     [NL] @ ''        - List supported features'' @
     [NL] @ ''        - Include limitations'' @
     [NL] @ ''        - Discuss compatibility aspects'' @
     [NL] @ ''        - Describe roaming scenarios'' @
     [NL] @ ''        - Reference relevant 3GPP specifications'' @
     [NL] @ ''        ''"

definition MIGRATION_CONTEXT :: string where
  "MIGRATION_CONTEXT =
     [NL] @ ''        For migration-related queries:'' @
     [NL] @ ''        - Provide migration paths'' @
     [NL] @ ''        - Detail upgrade steps'' @
     [NL] @ ''        - List compatibility issues'' @
     [NL] @ ''        - Include rollback procedures'' @
     [NL] @ ''        - Discuss impact analysis'' @
     [NL] @ ''        - Explain testing approaches'' @
     [NL] @ ''        - Reference relevant 3GPP specifications'' @
     [NL] @ ''        ''"

definition TROUBLESHOOTING_CONTEXT :: string where
  "TROUBLESHOOTING_CONTEXT =
     [NL] @ ''        For troubleshooting-related queries:'' @
     [NL] @ ''        - List common issues'' @
     [NL] @ ''        - Provide diagnostic steps'' @
     [NL] @ ''        - Detail resolution procedures'' @
     [NL] @ ''        - Include logging aspects'' @
     [NL] @ ''        - Discuss prevention methods'' @
     [NL] @ ''        - Explain monitoring tools'' @
     [NL] @ ''        - Reference relevant 3GPP specifications'' @
     [NL] @ ''        ''"

definition COMPLIANCE_CONTEXT :: string where
  "COMPLIANCE_CONTEXT =
     [NL] @ ''        For compliance-related queries:'' @
     [NL] @ ''        - List applicable standards'' @
     [NL] @ ''        - Detail requirements'' @
     [NL] @ ''        - Explain conformance testing'' @
     [NL] @ ''        - Include certification aspects'' @
     [NL] @ ''        - Discuss validation methods'' @
     [NL] @ ''        - Provide compliance checklist'' @
     [NL] @ ''        - Reference relevant 3GPP specifications'' @
     [NL] @ ''        ''"

definition FEATURE_CONTEXT :: string where
  "FEATURE_CONTEXT =
     [NL] @ ''        For feature-related queries:'' @
     [NL] @ ''        - Explain feature capabilities'' @
     [NL] @ ''        - Detail configuration options'' @
     [NL] @ ''        - List dependencies'' @
     [NL] @ ''        - Include limitations'' @
     [NL] @ ''        - Discuss use cases'' @
     [NL] @ ''        - Provide implementation guidance'' @
     [NL] @ ''        - Reference relevant 3GPP specifications'' @
     [NL] @ ''        ''"

fun SPECIALIZED_CONTEXTS :: "QueryType \<Rightarrow> string option" where
  "SPECIALIZED_CONTEXTS PROCEDURE = Some PROCEDURE_CONTEXT"
| "SPECIALIZED_CONTEXTS ARCHITECTURE = Some ARCHITECTURE_CONTEXT"
| "SPECIALIZED_CONTEXTS PROTOCOL = Some PROTOCOL_CONTEXT"
| "SPECIALIZED_CONTEXTS INTERFACE = Some INTERFACE_CONTEXT"
| "SPECIALIZED_CONTEXTS SECURITY = Some SECURITY_CONTEXT"
| "SPECIALIZED_CONTEXTS PERFORMANCE = Some PERFORMANCE_CONTEXT"
| "SPECIALIZED_CONTEXTS QOS = Some QOS_CONTEXT"
| "SPECIALIZED_CONTEXTS RELIABILITY = Some RELIABILITY_CONTEXT"
| "SPECIALIZED_CONTEXTS DEPLOYMENT = Some DEPLOYMENT_CONTEXT"
| "SPECIALIZED_CONTEXTS INTERWORKING = Some INTERWORKING_CONTEXT"
| "SPECIALIZED_CONTEXTS MIGRATION = Some MIGRATION_CONTEXT"
| "SPECIALIZED_CONTEXTS TROUBLESHOOTING = Some TROUBLESHOOTING_CONTEXT"
| "SPECIALIZED_CONTEXTS COMPLIANCE = Some COMPLIANCE_CONTEXT"
| "SPECIALIZED_CONTEXTS FEATURE = Some FEATURE_CONTEXT"
| "SPECIALIZED_CONTEXTS GENERAL = None"

section \<open>Prompt generation\<close>

text \<open>\<open>split_on sep s\<close> is \<open>s.split(sep)\<close> for a one-character separator.\<close>

fun split_on :: "char \<Rightarrow> string \<Rightarrow> string list" where
  "split_on sep [] = [[]]"
| "split_on sep (c # cs) =
     (if c = sep then [] # split_on sep cs
      else (case split_on sep cs of l # ls \<Rightarrow> (c # l) # ls | [] \<Rightarrow> [[c]]))"

text \<open>\<open>join sep xs\<close> is \<open>sep.join(xs)\<close>.\<close>

fun join :: "string \<Rightarrow> string list \<Rightarrow> string" where
  "join sep [] = []"
| "join sep [x] = x"
| "join sep (x # y # ys) = x @ sep @ join sep (y # ys)"

text \<open>
  \<open>format_2f x\<close> is \<open>f"{x:.2f}"\<close> for a non-negative \<open>x\<close>: the value rounded to the
  nearest hundredth (a tie to the even one), printed as the decimal integer part, a point
  and two digits.
\<close>

definition digit_char :: "nat \<Rightarrow> char" where
  "digit_char d = char_of (48 + d)"

fun show_nat :: "nat \<Rightarrow> string" where
  "show_nat n = (if n < 10 then [digit_char n] else show_nat (n div 10) @ [digit_char (n mod 10)])"

declare show_nat.simps [simp del]

definition round_hundredths :: "rat \<Rightarrow> nat" where
  "round_hundredths x =
     (let m = \<lfloor>x * 100\<rfloor>; r = x * 100 - of_int m
      in nat (if r < 1 / 2 then m else if r > 1 / 2 then m + 1
              else if even m then m else m + 1))"

definition format_2f :: "rat \<Rightarrow> string" where
  "format_2f x =
     (let n = round_hundredths x
      in show_nat (n div 100) @ ''.'' @ [digit_char (n div 10 mod 10), digit_char (n mod 10)])"

text \<open>
  \<open>classification.secondary_types\<close> is a Python set of enumeration members, and the
  program iterates over it twice. The order of that iteration is not fixed by the program:
  a set is traversed in the order of its hash table, and the hash of an enumeration member
  is the hash of its name, a string hash that the interpreter seeds anew in every process.
  The order is therefore an argument of the model, and \<open>set_iteration S xs\<close> says that
  \<open>xs\<close> is one traversal of \<open>S\<close>: every member once.
\<close>

definition set_iteration :: "'a set \<Rightarrow> 'a list \<Rightarrow> bool" where
  "set_iteration S xs \<longleftrightarrow> distinct xs \<and> set xs = S"

definition secondary_contexts_of :: "QueryType list \<Rightarrow> string list" where
  "secondary_contexts_of order =
     fold (\<lambda>secondary_type secondary_contexts.
        case SPECIALIZED_CONTEXTS secondary_type of
          Some context \<Rightarrow>
            (let context_lines = split_on NL context
             in secondary_contexts @ take 3 (drop 1 context_lines))
        | None \<Rightarrow> secondary_contexts)
       order []"

definition render_prompt :: "QueryClassification \<Rightarrow> QueryType list \<Rightarrow> string \<Rightarrow> string" where
  "render_prompt classification order user_query =
     (let primary_context =
            (case SPECIALIZED_CONTEXTS (primary_type classification) of
               Some context \<Rightarrow> context
             | None \<Rightarrow>
                 ''Provide a clear, technical response with relevant 3GPP specification references.'');
          secondary_contexts = secondary_contexts_of order
      in [NL] @
         ''        Primary Focus - '' @ member_value (primary_type classification) @ '':'' @ [NL] @
         ''        '' @ primary_context @ [NL] @
         ''        '' @ [NL] @
         ''        '' @ (if secondary_contexts \<noteq> [] then ''Additional Considerations:'' else []) @ [NL] @
         ''        '' @ join [NL] secondary_contexts @ [NL] @
         ''        '' @ [NL] @
         ''        Query Classification Confidence: '' @
                     format_2f (confidence_score classification) @ [NL] @
         ''        '' @ [NL] @
         ''        User Query: '' @ user_query @ [NL] @
         ''        '' @ [NL] @
         ''        Response Guidelines:'' @ [NL] @
         ''        1. Start with a clear overview'' @ [NL] @
         ''        2. Focus on '' @ member_value (primary_type classification) @ ''-related aspects'' @ [NL] @
         ''        3. Include relevant 3GPP specification references'' @ [NL] @
         ''        4. Provide practical examples where applicable'' @ [NL] @
         ''        5. Consider interdependencies with '' @
                     (if secondary_types classification \<noteq> {}
                      then join '', '' (map member_value order)
                      else ''other aspects'') @ [NL] @
         ''        6. Conclude with key takeaways and considerations'' @ [NL] @
         ''        '')"

text \<open>
  \<open>generate_prompt order user_query\<close> is the result of \<open>generate_prompt(user_query)\<close>
  in a run that traverses the set of secondary types in the order \<open>order\<close>.
\<close>

definition generate_prompt :: "QueryType list \<Rightarrow> string \<Rightarrow> string" where
  "generate_prompt order user_query =
     (let classification = classify_query user_query
      in render_prompt classification order user_query)"

section \<open>Notions used to state the properties\<close>

text \<open>A keyword occurs in a query when it is a substring of the lower-cased query.\<close>

definition occurs_in :: "string \<Rightarrow> string \<Rightarrow> bool" where
  "occurs_in query keyword \<longleftrightarrow> sublist keyword (lower query)"

definition no_keyword_occurs :: "string \<Rightarrow> bool" where
  "no_keyword_occurs query \<longleftrightarrow>
     (\<forall>(t, pk) \<in> set QUERY_KEYWORDS. \<forall>(p, kws) \<in> set pk. \<forall>kw \<in> set kws. \<not> occurs_in query kw)"

text \<open>
  The tiers of one type that have a keyword satisfying \<open>P\<close>, each with its keywords
  that satisfy \<open>P\<close>, in the order of the table; and the same for a whole table.
\<close>

definition matched_tiers :: "(string \<Rightarrow> bool) \<Rightarrow> (priority \<times> string list) list \<Rightarrow> tier_matches" where
  "matched_tiers P pk = filter (\<lambda>(p, ks). ks \<noteq> []) (map (\<lambda>(p, kws). (p, filter P kws)) pk)"

definition matched_types ::
  "(string \<Rightarrow> bool) \<Rightarrow> (QueryType \<times> (priority \<times> string list) list) list
     \<Rightarrow> (QueryType \<times> tier_matches) list" where
  "matched_types P table =
     filter (\<lambda>(t, d). d \<noteq> []) (map (\<lambda>(t, pk). (t, matched_tiers P pk)) table)"

text \<open>
  The score of a type as the specification words it: the weighted number of distinct
  keywords of the type that occur in the query, tier by tier, capped at 1.
\<close>

definition weighted_count :: "string \<Rightarrow> (priority \<times> string list) list \<Rightarrow> rat" where
  "weighted_count query pk =
     (\<Sum>(p, kws) \<leftarrow> pk. weights p * of_nat (length (remdups (filter (occurs_in query) kws))))"

definition formula_score :: "string \<Rightarrow> QueryType \<Rightarrow> rat" where
  "formula_score query t =
     (case map_of QUERY_KEYWORDS t of
        None \<Rightarrow> 0
      | Some pk \<Rightarrow> min 1 (weighted_count query pk))"

text \<open>The per-type scores that \<open>_classify_query\<close> computes for a query.\<close>

definition type_scores :: "string \<Rightarrow> (QueryType \<times> rat) list" where
  "type_scores query = type_scores_of (calculate_keyword_matches query)"

definition GENERAL_fallback :: QueryClassification where
  "GENERAL_fallback =
     \<lparr> primary_type = GENERAL, secondary_types = {}, confidence_score = 0,
       keywords_matched = [] \<rparr>"

text \<open>
  The state of the scan while the keywords of one tier of one type are read: the
  dictionary and the entry under construction, which exist only once they hold a match.
\<close>

definition with_tier :: "tier_matches \<Rightarrow> priority \<Rightarrow> string list \<Rightarrow> tier_matches" where
  "with_tier d p ks = (if ks = [] then d else d @ [(p, ks)])"

definition with_entry ::
  "(QueryType \<times> tier_matches) list \<Rightarrow> QueryType \<Rightarrow> tier_matches
     \<Rightarrow> (QueryType \<times> tier_matches) list" where
  "with_entry m t d = (if d = [] then m else m @ [(t, d)])"

text \<open>
  The lines that the prompt takes from the template of a secondary type:
  \<open>context_lines[1:4]\<close>.
\<close>

definition template_excerpt :: "QueryType \<Rightarrow> string list" where
  "template_excerpt t =
     (case SPECIALIZED_CONTEXTS t of
        Some context \<Rightarrow> take 3 (drop 1 (split_on NL context))
      | None \<Rightarrow> [])"



text \<open>
  The shape of the excerpt of a type's template: the template starts with an empty line,
  and the three lines after it, which the excerpt takes, are the heading of the template
  (\<open>For ...-related queries:\<close>) and its first two bullet lines.
\<close>

definition excerpt_is_heading_and_two_bullets :: "QueryType \<Rightarrow> bool" where
  "excerpt_is_heading_and_two_bullets t \<longleftrightarrow>
     (case SPECIALIZED_CONTEXTS t of
        None \<Rightarrow> False
      | Some context \<Rightarrow>
          (case split_on NL context of
             l0 # l1 # l2 # l3 # rest \<Rightarrow>
               l0 = [] \<and> template_excerpt t = [l1, l2, l3] \<and>
               prefix ''        For '' l1 \<and> suffix ''-related queries:'' l1 \<and>
               prefix ''        - '' l2 \<and> prefix ''        - '' l3
           | _ \<Rightarrow> False))"






section \<open>The scan as a filter of the table\<close>


lemma append_at_new: "k \<notin> fst ` set d \<Longrightarrow> append_at k v d = d @ [(k, [v])]"
  by (induction d) auto

lemma append_at_last:
  "k \<notin> fst ` set d \<Longrightarrow> append_at k v (d @ [(k, vs)]) = d @ [(k, vs @ [v])]"
  by (induction d) auto

lemma record_match_new:
  "t \<notin> fst ` set m \<Longrightarrow> record_match t p kw m = m @ [(t, [(p, [kw])])]"
  by (induction m) auto

lemma record_match_last:
  "t \<notin> fst ` set m \<Longrightarrow> record_match t p kw (m @ [(t, d)]) = m @ [(t, append_at p kw d)]"
  by (induction m) auto

lemma record_match_with:
  assumes "t \<notin> fst ` set m" "p \<notin> fst ` set d"
  shows "record_match t p kw (with_entry m t (with_tier d p ks))
           = with_entry m t (with_tier d p (ks @ [kw]))"
  using assms
  by (auto simp: with_entry_def with_tier_def record_match_new record_match_last
      append_at_new append_at_last)

lemma keyword_loop:
  assumes "t \<notin> fst ` set m" "p \<notin> fst ` set d"
  shows "fold (\<lambda>keyword matches. if P keyword then record_match t p keyword matches else matches)
           kws (with_entry m t (with_tier d p ks))
         = with_entry m t (with_tier d p (ks @ filter P kws))"
  using assms
proof (induction kws arbitrary: ks)
  case Nil
  then show ?case by simp
next
  case (Cons kw kws)
  then show ?case by (simp add: record_match_with)
qed

lemma fst_with_tier: "fst ` set (with_tier d p ks) \<subseteq> insert p (fst ` set d)"
  by (auto simp: with_tier_def)

lemma priority_loop:
  assumes "t \<notin> fst ` set m" "distinct (map fst pk)" "fst ` set pk \<inter> fst ` set d = {}"
  shows "fold (\<lambda>(priority, keywords) matches.
            fold (\<lambda>keyword matches. if P keyword then record_match t priority keyword matches else matches)
              keywords matches) pk (with_entry m t d)
         = with_entry m t (d @ matched_tiers P pk)"
  using assms
proof (induction pk arbitrary: d)
  case Nil
  then show ?case by (simp add: matched_tiers_def)
next
  case (Cons a pk)
  obtain p kws where a: "a = (p, kws)" by (cases a)
  have pd: "p \<notin> fst ` set d" using Cons.prems(3) a by auto
  have step: "fold (\<lambda>keyword matches. if P keyword then record_match t p keyword matches else matches)
           kws (with_entry m t d) = with_entry m t (with_tier d p (filter P kws))"
    using keyword_loop [OF Cons.prems(1) pd, of P kws "[]"] by (simp add: with_tier_def)
  have disj: "fst ` set pk \<inter> fst ` set (with_tier d p (filter P kws)) = {}"
    using Cons.prems(2,3) a by (auto simp: with_tier_def rev_image_eqI)
  have "distinct (map fst pk)" using Cons.prems(2) by simp
  from Cons.IH [OF Cons.prems(1) this disj] step a
  show ?case by (simp add: matched_tiers_def with_tier_def)
qed

lemma fst_with_entry: "fst ` set (with_entry m t d) \<subseteq> insert t (fst ` set m)"
  by (auto simp: with_entry_def)

lemma scan_table_closed:
  assumes "distinct (map fst table)" "fst ` set table \<inter> fst ` set m = {}"
    "\<forall>(t, pk) \<in> set table. distinct (map fst pk)"
  shows "scan_table table ql m = m @ matched_types (\<lambda>kw. sublist kw ql) table"
  using assms
proof (induction table arbitrary: m)
  case Nil
  then show ?case by (simp add: scan_table_def matched_types_def)
next
  case (Cons a table)
  obtain t pk where a: "a = (t, pk)" by (cases a)
  have tm: "t \<notin> fst ` set m" using Cons.prems(2) a by auto
  have dpk: "distinct (map fst pk)" using Cons.prems(3) a by auto
  let ?P = "\<lambda>kw. sublist kw ql"
  have step: "fold (\<lambda>(priority, keywords) matches.
            fold (\<lambda>keyword matches. if ?P keyword then record_match t priority keyword matches else matches)
              keywords matches) pk m = with_entry m t (matched_tiers ?P pk)"
    using priority_loop [OF tm dpk, of "[]" ?P] by (simp add: with_entry_def)
  have disj: "fst ` set table \<inter> fst ` set (with_entry m t (matched_tiers ?P pk)) = {}"
    using Cons.prems(1,2) a by (auto simp: with_entry_def rev_image_eqI)
  have d: "distinct (map fst table)" using Cons.prems(1) by simp
  have r: "\<forall>(t, pk) \<in> set table. distinct (map fst pk)" using Cons.prems(3) by simp
  from Cons.IH [OF d disj r] step a
  show ?case by (simp add: scan_table_def matched_types_def with_entry_def)
qed

section \<open>Facts about the keyword table\<close>

lemma table_types_distinct: "distinct (map fst QUERY_KEYWORDS)"
  by (simp add: QUERY_KEYWORDS_def)

lemma table_tiers_distinct: "\<forall>(t, pk) \<in> set QUERY_KEYWORDS. distinct (map fst pk)"
  by (simp add: QUERY_KEYWORDS_def)

lemma table_keywords_distinct:
  "\<forall>(t, pk) \<in> set QUERY_KEYWORDS. \<forall>(p, kws) \<in> set pk. distinct kws"
  by (simp add: QUERY_KEYWORDS_def)

lemma table_declaration_order:
  "sorted_wrt (<) (map (declaration_index \<circ> fst) QUERY_KEYWORDS)"
  by (simp add: QUERY_KEYWORDS_def)

lemma table_no_GENERAL: "GENERAL \<notin> fst ` set QUERY_KEYWORDS"
  by (simp add: QUERY_KEYWORDS_def)

lemma calculate_keyword_matches_closed:
  "calculate_keyword_matches query = matched_types (occurs_in query) QUERY_KEYWORDS"
proof -
  have "scan_table QUERY_KEYWORDS (lower query) []
          = [] @ matched_types (\<lambda>kw. sublist kw (lower query)) QUERY_KEYWORDS"
    by (rule scan_table_closed) (simp_all add: table_types_distinct table_tiers_distinct)
  then show ?thesis
    by (simp add: calculate_keyword_matches_def occurs_in_def [abs_def])
qed

section \<open>Scores\<close>

lemma fold_score_sum:
  "fold (\<lambda>(priority, keywords) score. score + of_nat (length keywords) * weights priority) d s
     = s + (\<Sum>(p, ks) \<leftarrow> d. weights p * of_nat (length ks))"
  by (induction d arbitrary: s) (auto simp: algebra_simps)

lemma sum_matched_tiers:
  "(\<Sum>(p, ks) \<leftarrow> matched_tiers P pk. weights p * of_nat (length ks))
     = (\<Sum>(p, kws) \<leftarrow> pk. weights p * of_nat (length (filter P kws)))"
  by (induction pk) (auto simp: matched_tiers_def)

lemma weights_ge: "3 / 10 \<le> weights p"
  by (cases p) simp_all

lemma sum_tiers_nonneg: "0 \<le> (\<Sum>(p, ks) \<leftarrow> d. weights p * of_nat (length ks))"
proof (induction d)
  case Nil
  show ?case by simp
next
  case (Cons a d)
  obtain p ks where a: "a = (p, ks)" by (cases a)
  have "0 \<le> weights p" using weights_ge [of p] by simp
  then have "0 \<le> weights p * of_nat (length ks)" by simp
  with Cons a show ?case by simp
qed

lemma sum_tiers_ge:
  assumes "d \<noteq> []" "\<forall>(p, ks) \<in> set d. ks \<noteq> []"
  shows "3 / 10 \<le> (\<Sum>(p, ks) \<leftarrow> d. weights p * of_nat (length ks))"
proof -
  obtain p ks d' where d: "d = (p, ks) # d'" using assms(1) by (cases d) auto
  have "ks \<noteq> []" using assms(2) d by simp
  then have "1 \<le> (of_nat (length ks) :: rat)"
    by (cases ks) simp_all
  moreover have "0 \<le> weights p" using weights_ge [of p] by simp
  ultimately have a: "weights p * 1 \<le> weights p * of_nat (length ks)"
    by (rule mult_left_mono)
  have b: "3 / 10 \<le> weights p * 1"
    using weights_ge [of p] by simp
  from b a have "3 / 10 \<le> weights p * of_nat (length ks)"
    by (rule order_trans)
  moreover have "0 \<le> (\<Sum>(p, ks) \<leftarrow> d'. weights p * of_nat (length ks))"
    by (rule sum_tiers_nonneg)
  ultimately show ?thesis using d by simp
qed

lemma confidence_as_sum:
  "calculate_confidence_score d = min 1 (\<Sum>(p, ks) \<leftarrow> d. weights p * of_nat (length ks))"
  by (simp add: calculate_confidence_score_def fold_score_sum min.commute)

lemma confidence_bounds:
  "0 \<le> calculate_confidence_score d" "calculate_confidence_score d \<le> 1"
  using sum_tiers_nonneg [of d] by (simp_all add: confidence_as_sum)

lemma confidence_ge:
  assumes "d \<noteq> []" "\<forall>(p, ks) \<in> set d. ks \<noteq> []"
  shows "3 / 10 \<le> calculate_confidence_score d"
  using sum_tiers_ge [OF assms] by (simp add: confidence_as_sum)

lemma matched_tiers_nonempty_lists: "\<forall>(p, ks) \<in> set (matched_tiers P pk). ks \<noteq> []"
  by (auto simp: matched_tiers_def)

lemma matched_types_entries:
  "(t, d) \<in> set (matched_types P table) \<Longrightarrow> d \<noteq> [] \<and> (\<forall>(p, ks) \<in> set d. ks \<noteq> [])"
  using matched_tiers_nonempty_lists [of P] by (fastforce simp: matched_types_def)


lemma matched_types_keys_filter:
  "\<exists>Q. map fst (matched_types P table) = map fst (filter Q table)"
proof -
  have "map fst (matched_types P table)
          = map fst (filter (\<lambda>(t, pk). matched_tiers P pk \<noteq> []) table)"
    by (induction table) (auto simp: matched_types_def)
  then show ?thesis by blast
qed

lemma matched_types_distinct:
  "distinct (map fst table) \<Longrightarrow> distinct (map fst (matched_types P table))"
proof -
  assume d: "distinct (map fst table)"
  obtain Q where "map fst (matched_types P table) = map fst (filter Q table)"
    using matched_types_keys_filter by blast
  then show ?thesis using d by (simp add: distinct_map_filter)
qed

lemma dict_set_new: "k \<notin> fst ` set d \<Longrightarrow> dict_set k v d = d @ [(k, v)]"
  by (induction d) auto

lemma type_scores_of_closed_aux:
  assumes "distinct (map fst km)" "fst ` set km \<inter> fst ` set ts = {}"
  shows "fold (\<lambda>(query_type, matches) type_scores.
        let confidence = calculate_confidence_score matches
        in if confidence > 0 then dict_set query_type confidence type_scores else type_scores)
       km ts
     = ts @ filter (\<lambda>(t, c). 0 < c) (map (\<lambda>(t, d). (t, calculate_confidence_score d)) km)"
  using assms
proof (induction km arbitrary: ts)
  case Nil
  show ?case by simp
next
  case (Cons a km)
  obtain t d where a: "a = (t, d)" by (cases a)
  have t: "t \<notin> fst ` set ts" using Cons.prems(2) a by auto
  have dk: "distinct (map fst km)" using Cons.prems(1) by simp
  show ?case
  proof (cases "0 < calculate_confidence_score d")
    case True
    have disj: "fst ` set km \<inter> fst ` set (ts @ [(t, calculate_confidence_score d)]) = {}"
      using Cons.prems a by (auto simp: rev_image_eqI)
    from Cons.IH [OF dk disj] True a t show ?thesis
      by (simp add: dict_set_new)
  next
    case False
    have disj: "fst ` set km \<inter> fst ` set ts = {}"
      using Cons.prems a by auto
    from Cons.IH [OF dk disj] False a show ?thesis by simp
  qed
qed

lemma type_scores_closed:
  "type_scores query
     = map (\<lambda>(t, d). (t, calculate_confidence_score d)) (matched_types (occurs_in query) QUERY_KEYWORDS)"
proof -
  let ?km = "matched_types (occurs_in query) QUERY_KEYWORDS"
  have d: "distinct (map fst ?km)"
    by (rule matched_types_distinct) (rule table_types_distinct)
  have pos: "\<forall>(t, d) \<in> set ?km. 0 < calculate_confidence_score d"
  proof (clarify)
    fix t d assume "(t, d) \<in> set ?km"
    then have "d \<noteq> [] \<and> (\<forall>(p, ks) \<in> set d. ks \<noteq> [])" by (rule matched_types_entries)
    then have "3 / 10 \<le> calculate_confidence_score d" using confidence_ge by blast
    then show "0 < calculate_confidence_score d" by simp
  qed
  have "filter (\<lambda>(t, c). 0 < c) (map (\<lambda>(t, d). (t, calculate_confidence_score d)) ?km)
          = map (\<lambda>(t, d). (t, calculate_confidence_score d)) ?km"
    using pos by (intro filter_True) auto
  then show ?thesis
    using type_scores_of_closed_aux [OF d, of "[]"]
    by (simp add: type_scores_def type_scores_of_def calculate_keyword_matches_closed)
qed

section \<open>Looking types up\<close>

lemma map_of_matched_types:
  "distinct (map fst table) \<Longrightarrow>
   map_of (matched_types P table) t =
     (case map_of table t of
        None \<Rightarrow> None
      | Some pk \<Rightarrow> if matched_tiers P pk = [] then None else Some (matched_tiers P pk))"
proof (induction table)
  case Nil
  show ?case by (simp add: matched_types_def)
next
  case (Cons a table)
  obtain t' pk' where a: "a = (t', pk')" by (cases a)
  have IH: "map_of (matched_types P table) t =
     (case map_of table t of
        None \<Rightarrow> None
      | Some pk \<Rightarrow> if matched_tiers P pk = [] then None else Some (matched_tiers P pk))"
    using Cons by simp
  have notin: "map_of table t' = None"
    using Cons.prems a by (simp add: map_of_eq_None_iff)
  have step: "matched_types P (a # table) =
     (if matched_tiers P pk' = [] then matched_types P table
      else (t', matched_tiers P pk') # matched_types P table)"
    using a by (simp add: matched_types_def)
  show ?case
  proof (cases "t = t'")
    case True
    then show ?thesis using step IH notin a by simp
  next
    case False
    then show ?thesis using step IH a by simp
  qed
qed

lemma matched_tiers_empty_iff:
  "matched_tiers P pk = [] \<longleftrightarrow> (\<forall>(p, kws) \<in> set pk. \<forall>kw \<in> set kws. \<not> P kw)"
  by (induction pk) (auto simp: matched_tiers_def filter_empty_conv)

lemma matched_types_empty_iff:
  "matched_types P table = [] \<longleftrightarrow>
     (\<forall>(t, pk) \<in> set table. \<forall>(p, kws) \<in> set pk. \<forall>kw \<in> set kws. \<not> P kw)"
proof -
  have "matched_types P table = [] \<longleftrightarrow> (\<forall>(t, pk) \<in> set table. matched_tiers P pk = [])"
    by (induction table) (auto simp: matched_types_def)
  then show ?thesis by (simp add: matched_tiers_empty_iff)
qed

lemma type_scores_empty_iff: "type_scores query = [] \<longleftrightarrow> no_keyword_occurs query"
  by (simp add: type_scores_closed matched_types_empty_iff no_keyword_occurs_def)

lemma weighted_count_distinct:
  "\<forall>(p, kws) \<in> set pk. distinct kws \<Longrightarrow>
   weighted_count query pk
     = (\<Sum>(p, kws) \<leftarrow> pk. weights p * of_nat (length (filter (occurs_in query) kws)))"
  unfolding weighted_count_def
  by (induction pk) (auto simp: distinct_remdups_id)

lemma confidence_matched_tiers:
  assumes "\<forall>(p, kws) \<in> set pk. distinct kws"
  shows "calculate_confidence_score (matched_tiers (occurs_in query) pk)
           = min 1 (weighted_count query pk)"
  by (simp add: confidence_as_sum sum_matched_tiers weighted_count_distinct [OF assms])

lemma map_of_type_scores:
  "map_of (type_scores query) t =
     (if 0 < formula_score query t then Some (formula_score query t) else None)"
proof (cases "map_of QUERY_KEYWORDS t")
  case None
  then show ?thesis
    by (simp add: type_scores_closed map_of_map map_of_matched_types table_types_distinct
        formula_score_def)
next
  case (Some pk)
  then have mem: "(t, pk) \<in> set QUERY_KEYWORDS" by (rule map_of_SomeD)
  have dk: "\<forall>(p, kws) \<in> set pk. distinct kws"
    using table_keywords_distinct mem by blast
  let ?d = "matched_tiers (occurs_in query) pk"
  have score: "calculate_confidence_score ?d = formula_score query t"
    using Some by (simp add: confidence_matched_tiers [OF dk] formula_score_def)
  have look: "map_of (type_scores query) t
                = (if ?d = [] then None else Some (calculate_confidence_score ?d))"
    using Some
    by (simp add: type_scores_closed map_of_map map_of_matched_types table_types_distinct)
  show ?thesis
  proof (cases "?d = []")
    case True
    then have "calculate_confidence_score ?d = 0"
      by (simp add: confidence_as_sum)
    then show ?thesis using look True score by simp
  next
    case False
    have "3 / 10 \<le> calculate_confidence_score ?d"
      using False matched_tiers_nonempty_lists by (intro confidence_ge) auto
    then show ?thesis using look False score by simp
  qed
qed

lemma type_scores_distinct: "distinct (map fst (type_scores query))"
proof -
  have "map fst (type_scores query) = map fst (matched_types (occurs_in query) QUERY_KEYWORDS)"
    by (simp add: type_scores_closed comp_def case_prod_unfold)
  then show ?thesis
    by (simp add: matched_types_distinct table_types_distinct)
qed

lemma type_scores_mem_iff:
  "(t, s) \<in> set (type_scores query) \<longleftrightarrow> map_of (type_scores query) t = Some s"
  using type_scores_distinct by (auto intro: map_of_is_SomeI dest: map_of_SomeD)

lemma scored_types_keys:
  "map (g \<circ> fst) (map (\<lambda>(t, d). (t, f d)) (matched_types P table))
     = map (g \<circ> fst) (filter (\<lambda>(t, pk). matched_tiers P pk \<noteq> []) table)"
  by (induction table) (auto simp: matched_types_def)

lemma type_scores_declaration_order:
  "sorted_wrt (<) (map (declaration_index \<circ> fst) (type_scores query))"
proof -
  let ?P = "occurs_in query"
  have "sorted_wrt (\<lambda>x y. declaration_index (fst x) < declaration_index (fst y)) QUERY_KEYWORDS"
    using table_declaration_order by (simp add: sorted_wrt_map)
  then have "sorted_wrt (\<lambda>x y. declaration_index (fst x) < declaration_index (fst y))
               (filter (\<lambda>(t, pk). matched_tiers ?P pk \<noteq> []) QUERY_KEYWORDS)"
    by (rule sorted_wrt_filter)
  then show ?thesis
    unfolding type_scores_closed scored_types_keys by (simp add: sorted_wrt_map)
qed

lemma type_scores_lower_bound: "(t, s) \<in> set (type_scores query) \<Longrightarrow> 3 / 10 \<le> s \<and> s \<le> 1"
proof -
  assume "(t, s) \<in> set (type_scores query)"
  then obtain d where d: "(t, d) \<in> set (matched_types (occurs_in query) QUERY_KEYWORDS)"
    and s: "s = calculate_confidence_score d"
    by (auto simp: type_scores_closed)
  from d have "d \<noteq> [] \<and> (\<forall>(p, ks) \<in> set d. ks \<noteq> [])" by (rule matched_types_entries)
  then have "3 / 10 \<le> calculate_confidence_score d" using confidence_ge by blast
  then show ?thesis using s confidence_bounds(2) [of d] by simp
qed

section \<open>The sorted candidates\<close>

lemma sorted_types_nonempty: "ts \<noteq> [] \<Longrightarrow> sorted_types_of ts \<noteq> []"
  unfolding sorted_types_of_def
  by (metis length_sort length_0_conv)

lemma sorted_types_set: "set (sorted_types_of ts) = set ts"
  by (simp add: sorted_types_of_def)

lemma sorted_types_distinct_keys:
  "distinct (map fst ts) \<Longrightarrow> distinct (map fst (sorted_types_of ts))"
  by (simp add: distinct_map sorted_types_of_def)

lemma hd_sorted_types_mem: "ts \<noteq> [] \<Longrightarrow> hd (sorted_types_of ts) \<in> set ts"
  using sorted_types_nonempty [of ts] sorted_types_set [of ts] hd_in_set by blast

lemma hd_sorted_types_max:
  assumes "ts \<noteq> []" "x \<in> set ts"
  shows "snd x \<le> snd (hd (sorted_types_of ts))"
proof -
  obtain h r where s: "sorted_types_of ts = h # r"
    using sorted_types_nonempty [OF assms(1)] by (cases "sorted_types_of ts") auto
  have "sorted (map (\<lambda>x. - snd x) (sorted_types_of ts))"
    by (simp add: sorted_types_of_def)
  then have "\<forall>y \<in> set r. - snd h \<le> - snd y" using s by simp
  moreover have "x = h \<or> x \<in> set r"
    using assms(2) sorted_types_set [of ts] s by auto
  ultimately show ?thesis using s by auto
qed

lemma hd_sorted_types_first:
  assumes "ts \<noteq> []"
  shows "hd (sorted_types_of ts)
           = hd (filter (\<lambda>y. snd y = snd (hd (sorted_types_of ts))) ts)"
proof -
  obtain h r where s: "sorted_types_of ts = h # r"
    using sorted_types_nonempty [OF assms] by (cases "sorted_types_of ts") auto
  have "filter (\<lambda>y. - snd y = - snd h) (sort_key (\<lambda>x. - snd x) ts)
          = filter (\<lambda>y. - snd y = - snd h) ts"
    by (rule sort_key_stable)
  then have "filter (\<lambda>y. snd y = snd h) (h # r) = filter (\<lambda>y. snd y = snd h) ts"
    using s by (simp add: sorted_types_of_def)
  then have "h # filter (\<lambda>y. snd y = snd h) r = filter (\<lambda>y. snd y = snd h) ts"
    by simp
  then have "hd (filter (\<lambda>y. snd y = snd h) ts) = h"
    by (metis list.sel(1))
  then show ?thesis using s by simp
qed

section \<open>The two branches of the classification\<close>

lemma classify_query_fallback:
  "type_scores query = [] \<Longrightarrow> classify_query query = GENERAL_fallback"
  by (simp add: classify_query_def type_scores_def GENERAL_fallback_def)

lemma filter_matched_types:
  "filter (\<lambda>(k, v). v \<noteq> []) (matched_types P table) = matched_types P table"
  by (simp add: matched_types_def)

lemma classify_query_matched:
  assumes "type_scores query \<noteq> []"
  shows "primary_type (classify_query query) = fst (hd (sorted_types_of (type_scores query)))"
    and "confidence_score (classify_query query) = snd (hd (sorted_types_of (type_scores query)))"
    and "secondary_types (classify_query query)
           = set (map fst (filter (\<lambda>(query_type, score). score > 3 / 10)
                    (tl (sorted_types_of (type_scores query)))))"
proof -
  let ?sorted = "sorted_types_of (type_scores query)"
  have ne: "type_scores_of (calculate_keyword_matches query) \<noteq> []"
    using assms unfolding type_scores_def .
  have "classify_query query =
      \<lparr> primary_type = fst (hd ?sorted),
        secondary_types =
          set (map fst (filter (\<lambda>(query_type, score). score > 3 / 10) (tl ?sorted))),
        confidence_score = snd (hd ?sorted),
        keywords_matched =
          map (\<lambda>(k, v). (Str_key (member_str k), v))
            (filter (\<lambda>(k, v). v \<noteq> []) (calculate_keyword_matches query)) \<rparr>"
    unfolding classify_query_def Let_def type_scores_def using ne by (simp only: if_False)
  then show "primary_type (classify_query query) = fst (hd ?sorted)"
    and "confidence_score (classify_query query) = snd (hd ?sorted)"
    and "secondary_types (classify_query query)
           = set (map fst (filter (\<lambda>(query_type, score). score > 3 / 10) (tl ?sorted)))"
    by (simp_all only: QueryClassification.select_convs)
qed

lemma keywords_matched_closed:
  "keywords_matched (classify_query query)
     = map (\<lambda>(k, v). (Str_key (member_str k), v))
         (matched_types (occurs_in query) QUERY_KEYWORDS)"
proof (cases "type_scores query = []")
  case True
  then have "matched_types (occurs_in query) QUERY_KEYWORDS = []"
    by (simp add: type_scores_closed)
  then show ?thesis using True by (simp add: classify_query_fallback GENERAL_fallback_def)
next
  case False
  then have ne: "type_scores_of (calculate_keyword_matches query) \<noteq> []"
    unfolding type_scores_def .
  have "keywords_matched (classify_query query)
          = map (\<lambda>(k, v). (Str_key (member_str k), v))
              (filter (\<lambda>(k, v). v \<noteq> []) (calculate_keyword_matches query))"
    using ne by (simp add: classify_query_def Let_def)
  then show ?thesis
    by (simp add: calculate_keyword_matches_closed filter_matched_types)
qed

lemma primary_is_candidate:
  assumes "type_scores query \<noteq> []"
  shows "(primary_type (classify_query query), confidence_score (classify_query query))
           \<in> set (type_scores query)"
  using hd_sorted_types_mem [OF assms] classify_query_matched(1,2) [OF assms] by simp

lemma secondary_is_other_candidate:
  assumes "t \<in> secondary_types (classify_query query)"
  shows "\<exists>s. (t, s) \<in> set (tl (sorted_types_of (type_scores query))) \<and> 3 / 10 < s
           \<and> type_scores query \<noteq> []"
proof (cases "type_scores query = []")
  case True
  then show ?thesis using assms by (simp add: classify_query_fallback GENERAL_fallback_def)
next
  case False
  then show ?thesis using assms classify_query_matched(3) [OF False] by auto
qed

lemma candidates_in_table: "(t, s) \<in> set (type_scores query) \<Longrightarrow> t \<in> fst ` set QUERY_KEYWORDS"
  by (auto simp: type_scores_closed matched_types_def rev_image_eqI)

lemma member_str_inj: "member_str a = member_str b \<Longrightarrow> a = b"
  by (cases a; cases b; simp add: member_str_def)

lemma map_of_str_keys:
  "map_of (map (\<lambda>(k, v). (Str_key (member_str k), v)) xs) (Str_key (member_str t)) = map_of xs t"
  by (induction xs) (auto dest: member_str_inj)

lemma map_of_enum_keys:
  "map_of (map (\<lambda>(k, v). (Str_key (member_str k), v)) xs) (Enum_key t) = None"
  by (induction xs) auto

lemma secondary_in_table:
  assumes "t \<in> secondary_types (classify_query query)"
  shows "t \<in> fst ` set QUERY_KEYWORDS"
proof -
  obtain s where s: "(t, s) \<in> set (tl (sorted_types_of (type_scores query)))"
    and ne: "type_scores query \<noteq> []"
    using secondary_is_other_candidate [OF assms] by blast
  have "sorted_types_of (type_scores query) \<noteq> []" using ne by (rule sorted_types_nonempty)
  then have "(t, s) \<in> set (sorted_types_of (type_scores query))"
    using s by (meson list.set_sel(2))
  then have "(t, s) \<in> set (type_scores query)" by (simp add: sorted_types_set)
  then show ?thesis by (rule candidates_in_table)
qed

section \<open>Upper case\<close>











section \<open>Worked queries\<close>

lemma matches_three_types:
  "calculate_keyword_matches ''security performance protocol''
     = [(PROCEDURE, [(low_priority, [''perform''])]),
        (PROTOCOL, [(high_priority, [''protocol''])]),
        (SECURITY, [(high_priority, [''security''])]),
        (PERFORMANCE, [(high_priority, [''performance''])])]"
  by code_simp

lemma type_scores_three_types:
  "type_scores ''security performance protocol''
     = [(PROCEDURE, 3 / 10), (PROTOCOL, 1), (SECURITY, 1), (PERFORMANCE, 1)]"
  by (simp add: type_scores_def matches_three_types type_scores_of_def
      calculate_confidence_score_def)

lemma classify_three_types:
  "classify_query ''security performance protocol''
     = \<lparr> primary_type = PROTOCOL, secondary_types = {SECURITY, PERFORMANCE},
         confidence_score = 1,
         keywords_matched =
           [(Str_key ''QueryType.PROCEDURE'', [(low_priority, [''perform''])]),
            (Str_key ''QueryType.PROTOCOL'', [(high_priority, [''protocol''])]),
            (Str_key ''QueryType.SECURITY'', [(high_priority, [''security''])]),
            (Str_key ''QueryType.PERFORMANCE'', [(high_priority, [''performance''])])] \<rparr>"
proof -
  have ts: "type_scores_of (calculate_keyword_matches ''security performance protocol'')
     = [(PROCEDURE, 3 / 10), (PROTOCOL, 1), (SECURITY, 1), (PERFORMANCE, 1)]"
    using type_scores_three_types by (simp only: type_scores_def)
  show ?thesis
    unfolding classify_query_def Let_def ts
    by (simp add: matches_three_types sorted_types_of_def member_str_def)
qed

lemma no_keyword_in_hello: "no_keyword_occurs ''hello''"
  by code_simp

lemma no_keyword_in_empty: "no_keyword_occurs []"
  by code_simp

lemma formula_score_example: "formula_score ''security performance protocol'' PROCEDURE = 3 / 10"
  by code_simp

section \<open>Properties of the classifier\<close>

text \<open>
  C2. When several candidate types share the highest score, the primary type is the one
  of them that is declared first in \<open>QueryType\<close>: if \<open>t\<close> is a candidate whose score
  \<open>s\<close> no candidate exceeds, the primary type is a candidate with the score \<open>s\<close> too,
  and it is \<open>t\<close> or is declared before \<open>t\<close>.
\<close>

theorem primary_first_declared_among_ties:
  assumes "(t, s) \<in> set (type_scores query)"
    and "\<forall>(t', s') \<in> set (type_scores query). s' \<le> s"
  shows "(primary_type (classify_query query), s) \<in> set (type_scores query) \<and>
         (t \<noteq> primary_type (classify_query query) \<longrightarrow>
            declaration_index (primary_type (classify_query query)) < declaration_index t)"
proof -
  let ?ts = "type_scores query"
  let ?h = "hd (sorted_types_of ?ts)"
  have ne: "?ts \<noteq> []" using assms(1) by auto
  have prim: "primary_type (classify_query query) = fst ?h"
    by (rule classify_query_matched(1) [OF ne])
  have hmem: "?h \<in> set ?ts" by (rule hd_sorted_types_mem [OF ne])
  have "s \<le> snd ?h" using hd_sorted_types_max [OF ne assms(1)] by simp
  moreover have "snd ?h \<le> s" using assms(2) hmem by (auto simp: case_prod_unfold)
  ultimately have sh: "snd ?h = s" by simp
  have cand: "(fst ?h, s) \<in> set ?ts" using hmem sh by (metis prod.collapse)
  let ?F = "filter (\<lambda>y. snd y = s) ?ts"
  have hF: "?h = hd ?F" using hd_sorted_types_first [OF ne] sh by simp
  have tF: "(t, s) \<in> set ?F" using assms(1) by simp
  then obtain r where F: "?F = ?h # r" using hF by (cases ?F) auto
  have "sorted_wrt (\<lambda>x y. declaration_index (fst x) < declaration_index (fst y)) ?ts"
    using type_scores_declaration_order [of query] by (simp add: sorted_wrt_map)
  then have "sorted_wrt (\<lambda>x y. declaration_index (fst x) < declaration_index (fst y)) ?F"
    by (rule sorted_wrt_filter)
  then have later: "\<forall>y \<in> set r. declaration_index (fst ?h) < declaration_index (fst y)"
    using F by simp
  have "t \<noteq> fst ?h \<longrightarrow> declaration_index (fst ?h) < declaration_index t"
  proof
    assume "t \<noteq> fst ?h"
    then have "(t, s) \<noteq> ?h" by (metis fst_conv)
    then have "(t, s) \<in> set r" using tF F by auto
    then show "declaration_index (fst ?h) < declaration_index t" using later by force
  qed
  then show ?thesis using cand prim by simp
qed

theorem primary_first_declared_among_ties_witness:
  "type_scores ''security performance protocol''
     = [(PROCEDURE, 3 / 10), (PROTOCOL, 1), (SECURITY, 1), (PERFORMANCE, 1)] \<and>
   (primary_type (classify_query ''security performance protocol''), 1)
      \<in> set (type_scores ''security performance protocol'') \<and>
   primary_type (classify_query ''security performance protocol'') = PROTOCOL \<and>
   declaration_index (primary_type (classify_query ''security performance protocol''))
      < declaration_index PERFORMANCE"
proof -
  have h1: "(PERFORMANCE, 1) \<in> set (type_scores ''security performance protocol'')"
    by (simp add: type_scores_three_types)
  have h2: "\<forall>(t', s') \<in> set (type_scores ''security performance protocol''). s' \<le> 1"
    by (simp add: type_scores_three_types)
  have p: "primary_type (classify_query ''security performance protocol'') = PROTOCOL"
    by (simp add: classify_three_types)
  show ?thesis
    using primary_first_declared_among_ties [OF h1 h2] p type_scores_three_types by simp
qed

text \<open>
  C4. The score that the classifier computes for a type is the capped weighted count of
  the specification, \<open>formula_score\<close>, and the type is a candidate exactly when that
  score is positive. The confidence of the classification is the score of its primary
  type and lies between 0 and 1.
\<close>

theorem score_is_capped_weighted_count:
  "map_of (type_scores query) t =
     (if 0 < formula_score query t then Some (formula_score query t) else None) \<and>
   confidence_score (classify_query query)
     = formula_score query (primary_type (classify_query query)) \<and>
   0 \<le> confidence_score (classify_query query) \<and>
   confidence_score (classify_query query) \<le> 1"
proof -
  let ?c = "classify_query query"
  have look: "\<And>t. map_of (type_scores query) t =
     (if 0 < formula_score query t then Some (formula_score query t) else None)"
    by (rule map_of_type_scores)
  have conf: "confidence_score ?c = formula_score query (primary_type ?c)
                \<and> 0 \<le> confidence_score ?c \<and> confidence_score ?c \<le> 1"
  proof (cases "type_scores query = []")
    case True
    have "map_of QUERY_KEYWORDS GENERAL = None"
      using table_no_GENERAL by (simp add: map_of_eq_None_iff)
    then have "formula_score query GENERAL = 0" by (simp add: formula_score_def)
    then show ?thesis
      using True by (simp add: classify_query_fallback GENERAL_fallback_def)
  next
    case False
    have mem: "(primary_type ?c, confidence_score ?c) \<in> set (type_scores query)"
      by (rule primary_is_candidate [OF False])
    then have "map_of (type_scores query) (primary_type ?c) = Some (confidence_score ?c)"
      by (simp add: type_scores_mem_iff)
    then have "confidence_score ?c = formula_score query (primary_type ?c)"
      using look [of "primary_type ?c"] by (simp split: if_splits)
    moreover have "3 / 10 \<le> confidence_score ?c \<and> confidence_score ?c \<le> 1"
      using mem by (rule type_scores_lower_bound)
    ultimately show ?thesis by simp
  qed
  show ?thesis using look [of t] conf by simp
qed

theorem score_is_capped_weighted_count_witness:
  "map_of (type_scores ''security performance protocol'') PROCEDURE = Some (3 / 10) \<and>
   formula_score ''security performance protocol'' PROCEDURE = 3 / 10 \<and>
   confidence_score (classify_query ''security performance protocol'') = 1 \<and>
   formula_score ''security performance protocol''
     (primary_type (classify_query ''security performance protocol'')) = 1"
  using score_is_capped_weighted_count [of "''security performance protocol''" PROCEDURE]
  by (simp add: formula_score_example classify_three_types)

text \<open>
  C5. A query in which no keyword of the table occurs, the empty query among them, is
  classified as the fallback: primary type \<open>GENERAL\<close>, no secondary type, confidence 0,
  no matched keyword.
\<close>

theorem no_keyword_gives_fallback:
  "no_keyword_occurs query \<Longrightarrow> classify_query query = GENERAL_fallback"
  by (simp add: classify_query_fallback type_scores_empty_iff)

theorem no_keyword_gives_fallback_witness:
  "no_keyword_occurs [] \<and>
   classify_query [] =
     \<lparr> primary_type = GENERAL, secondary_types = {}, confidence_score = 0,
       keywords_matched = [] \<rparr> \<and>
   no_keyword_occurs ''hello'' \<and>
   classify_query ''hello'' =
     \<lparr> primary_type = GENERAL, secondary_types = {}, confidence_score = 0,
       keywords_matched = [] \<rparr>"
  using no_keyword_gives_fallback [OF no_keyword_in_empty]
    no_keyword_gives_fallback [OF no_keyword_in_hello]
    no_keyword_in_empty no_keyword_in_hello
  by (simp add: GENERAL_fallback_def)

text \<open>
  C6. The primary type is not one of the secondary types, and every secondary type is a
  candidate whose score is greater than 0.3.
\<close>

theorem secondary_excludes_primary_and_exceeds_threshold:
  "primary_type (classify_query query) \<notin> secondary_types (classify_query query) \<and>
   (\<forall>t \<in> secondary_types (classify_query query).
      map_of (type_scores query) t = Some (formula_score query t) \<and>
      3 / 10 < formula_score query t)"
proof -
  let ?c = "classify_query query"
  let ?s = "sorted_types_of (type_scores query)"
  have thr: "\<forall>t \<in> secondary_types ?c.
      map_of (type_scores query) t = Some (formula_score query t) \<and> 3 / 10 < formula_score query t"
  proof
    fix t assume "t \<in> secondary_types ?c"
    then obtain s where s: "(t, s) \<in> set (tl ?s)" "3 / 10 < s" "type_scores query \<noteq> []"
      using secondary_is_other_candidate by blast
    have "?s \<noteq> []" using s(3) by (rule sorted_types_nonempty)
    then have "(t, s) \<in> set ?s" using s(1) by (meson list.set_sel(2))
    then have "(t, s) \<in> set (type_scores query)" by (simp add: sorted_types_set)
    then have "map_of (type_scores query) t = Some s" by (simp add: type_scores_mem_iff)
    then have "s = formula_score query t"
      using map_of_type_scores [of query t] by (simp split: if_splits)
    then show "map_of (type_scores query) t = Some (formula_score query t)
                 \<and> 3 / 10 < formula_score query t"
      using \<open>map_of (type_scores query) t = Some s\<close> s(2) by simp
  qed
  have "primary_type ?c \<notin> secondary_types ?c"
  proof
    assume a: "primary_type ?c \<in> secondary_types ?c"
    then obtain s where s: "(primary_type ?c, s) \<in> set (tl ?s)" "type_scores query \<noteq> []"
      using secondary_is_other_candidate by blast
    obtain h r where hr: "?s = h # r"
      using sorted_types_nonempty [OF s(2)] by (cases ?s) auto
    have "distinct (map fst ?s)"
      by (rule sorted_types_distinct_keys) (rule type_scores_distinct)
    then have "fst h \<notin> fst ` set r" using hr by simp
    moreover have "primary_type ?c = fst h"
      using classify_query_matched(1) [OF s(2)] hr by simp
    moreover have "(primary_type ?c, s) \<in> set r" using s(1) hr by simp
    ultimately show False by (metis fst_conv imageI)
  qed
  then show ?thesis using thr by simp
qed

theorem secondary_excludes_primary_and_exceeds_threshold_witness:
  "SECURITY \<in> secondary_types (classify_query ''security performance protocol'') \<and>
   primary_type (classify_query ''security performance protocol'') = PROTOCOL \<and>
   PROTOCOL \<notin> secondary_types (classify_query ''security performance protocol'') \<and>
   map_of (type_scores ''security performance protocol'') SECURITY
     = Some (formula_score ''security performance protocol'' SECURITY) \<and>
   3 / 10 < formula_score ''security performance protocol'' SECURITY"
proof -
  have m: "SECURITY \<in> secondary_types (classify_query ''security performance protocol'')"
    by (simp add: classify_three_types)
  have p: "primary_type (classify_query ''security performance protocol'') = PROTOCOL"
    by (simp add: classify_three_types)
  show ?thesis
    using secondary_excludes_primary_and_exceeds_threshold [of "''security performance protocol''"]
      m p by auto
qed




text \<open>
  C10. The primary type is \<open>GENERAL\<close> exactly when no keyword occurs in the query, which
  is also exactly when no matched keyword is reported and exactly when the confidence is
  0; and \<open>GENERAL\<close> is never a secondary type.
\<close>

theorem general_iff_no_keyword:
  "(primary_type (classify_query query) = GENERAL \<longleftrightarrow> no_keyword_occurs query) \<and>
   (keywords_matched (classify_query query) = [] \<longleftrightarrow> no_keyword_occurs query) \<and>
   (confidence_score (classify_query query) = 0 \<longleftrightarrow> no_keyword_occurs query) \<and>
   GENERAL \<notin> secondary_types (classify_query query)"
proof (cases "type_scores query = []")
  case True
  then have "no_keyword_occurs query" by (simp add: type_scores_empty_iff)
  then show ?thesis
    using True by (simp add: classify_query_fallback GENERAL_fallback_def)
next
  case False
  let ?c = "classify_query query"
  have nk: "\<not> no_keyword_occurs query" using False by (simp add: type_scores_empty_iff)
  have mem: "(primary_type ?c, confidence_score ?c) \<in> set (type_scores query)"
    by (rule primary_is_candidate [OF False])
  then have "primary_type ?c \<in> fst ` set QUERY_KEYWORDS" by (rule candidates_in_table)
  then have p: "primary_type ?c \<noteq> GENERAL" using table_no_GENERAL by metis
  have "3 / 10 \<le> confidence_score ?c \<and> confidence_score ?c \<le> 1"
    using mem by (rule type_scores_lower_bound)
  then have c: "confidence_score ?c \<noteq> 0" by simp
  have "matched_types (occurs_in query) QUERY_KEYWORDS \<noteq> []"
    using False by (simp add: type_scores_closed)
  then have k: "keywords_matched ?c \<noteq> []" by (simp add: keywords_matched_closed)
  have g: "GENERAL \<notin> secondary_types ?c"
  proof
    assume "GENERAL \<in> secondary_types ?c"
    then obtain s where s: "(GENERAL, s) \<in> set (tl (sorted_types_of (type_scores query)))"
      using secondary_is_other_candidate by blast
    have "sorted_types_of (type_scores query) \<noteq> []" using False by (rule sorted_types_nonempty)
    then have "(GENERAL, s) \<in> set (sorted_types_of (type_scores query))"
      using s by (meson list.set_sel(2))
    then have "(GENERAL, s) \<in> set (type_scores query)" by (simp add: sorted_types_set)
    then have "GENERAL \<in> fst ` set QUERY_KEYWORDS" by (rule candidates_in_table)
    then show False using table_no_GENERAL by simp
  qed
  show ?thesis using nk p c k g by simp
qed

theorem general_iff_no_keyword_witness:
  "no_keyword_occurs ''hello'' \<and>
   primary_type (classify_query ''hello'') = GENERAL \<and>
   keywords_matched (classify_query ''hello'') = [] \<and>
   confidence_score (classify_query ''hello'') = 0 \<and>
   primary_type (classify_query ''security performance protocol'') \<noteq> GENERAL \<and>
   \<not> no_keyword_occurs ''security performance protocol''"
proof -
  have p: "primary_type (classify_query ''security performance protocol'') \<noteq> GENERAL"
    by (simp add: classify_three_types)
  show ?thesis
    using general_iff_no_keyword [of "''hello''"]
      general_iff_no_keyword [of "''security performance protocol''"]
      no_keyword_in_hello p
    by simp
qed

section \<open>The reported keywords\<close>

lemma security_occurs: "occurs_in ''security performance protocol'' ''security''"
  by code_simp

lemma procedure_entry:
  "(PROCEDURE,
     [(high_priority, [''procedure'', ''process'', ''flow'', ''step'', ''sequence'', ''operation'']),
      (medium_priority, [''how to'', ''when'', ''trigger'', ''initiate'', ''handle'']),
      (low_priority, [''do'', ''perform'', ''execute''])]) \<in> set QUERY_KEYWORDS"
  by (simp add: QUERY_KEYWORDS_def)

lemma procedure_tiers_example:
  "(if \<exists>(p, kws) \<in> set
          [(high_priority, [''procedure'', ''process'', ''flow'', ''step'', ''sequence'', ''operation'']),
           (medium_priority, [''how to'', ''when'', ''trigger'', ''initiate'', ''handle'']),
           (low_priority, [''do'', ''perform'', ''execute''])].
         \<exists>kw \<in> set kws. occurs_in ''security performance protocol'' kw
    then Some (matched_tiers (occurs_in ''security performance protocol'')
          [(high_priority, [''procedure'', ''process'', ''flow'', ''step'', ''sequence'', ''operation'']),
           (medium_priority, [''how to'', ''when'', ''trigger'', ''initiate'', ''handle'']),
           (low_priority, [''do'', ''perform'', ''execute''])])
    else None) = Some [(low_priority, [''perform''])]"
  by code_simp

text \<open>
  C3, as stated, fails: the keys of \<open>keywords_matched\<close> are not members of
  \<open>QueryType\<close>. The keyword \<open>security\<close> of \<open>SECURITY\<close> occurs in the query, and a
  lookup of the member \<open>SECURITY\<close> finds no entry.
\<close>

theorem keywords_matched_member_key_counterexample:
  "occurs_in ''security performance protocol'' ''security'' \<and>
   map_of (keywords_matched (classify_query ''security performance protocol''))
     (Enum_key SECURITY) = None"
  using security_occurs by (simp add: classify_three_types)

text \<open>
  C3, amended. \<open>keywords_matched\<close> is keyed by the text \<open>str\<close> gives for a member
  (\<open>QueryType.SECURITY\<close> for \<open>SECURITY\<close>): for every type of the keyword table, whether
  primary, secondary or neither, the entry under that text is the type's matched keywords
  by tier when one of its keywords occurs in the query, and there is no entry otherwise;
  no entry is keyed by a member itself.
\<close>

theorem keywords_matched_keyed_by_member_str:
  assumes "(t, pk) \<in> set QUERY_KEYWORDS"
  shows "map_of (keywords_matched (classify_query query)) (Str_key (member_str t)) =
           (if \<exists>(p, kws) \<in> set pk. \<exists>kw \<in> set kws. occurs_in query kw
            then Some (matched_tiers (occurs_in query) pk) else None) \<and>
         map_of (keywords_matched (classify_query query)) (Enum_key t') = None"
proof -
  have "map_of QUERY_KEYWORDS t = Some pk"
    using table_types_distinct assms by (rule map_of_is_SomeI)
  then have look: "map_of (matched_types (occurs_in query) QUERY_KEYWORDS) t =
      (if matched_tiers (occurs_in query) pk = [] then None
       else Some (matched_tiers (occurs_in query) pk))"
    by (simp add: map_of_matched_types table_types_distinct)
  have iff: "matched_tiers (occurs_in query) pk = [] \<longleftrightarrow>
      \<not> (\<exists>(p, kws) \<in> set pk. \<exists>kw \<in> set kws. occurs_in query kw)"
    unfolding matched_tiers_empty_iff by blast
  have keys: "map_of (keywords_matched (classify_query query)) (Str_key (member_str t))
      = map_of (matched_types (occurs_in query) QUERY_KEYWORDS) t"
    by (simp only: keywords_matched_closed map_of_str_keys)
  have none: "map_of (keywords_matched (classify_query query)) (Enum_key t') = None"
    by (simp only: keywords_matched_closed map_of_enum_keys)
  show ?thesis
  proof (cases "\<exists>(p, kws) \<in> set pk. \<exists>kw \<in> set kws. occurs_in query kw")
    case True
    then have "matched_tiers (occurs_in query) pk \<noteq> []" using iff by simp
    then show ?thesis using True keys look none by simp
  next
    case False
    then have "matched_tiers (occurs_in query) pk = []" using iff by simp
    then show ?thesis using False keys look none by simp
  qed
qed

theorem keywords_matched_keyed_by_member_str_witness:
  "map_of (keywords_matched (classify_query ''security performance protocol''))
     (Str_key (member_str PROCEDURE)) = Some [(low_priority, [''perform''])] \<and>
   map_of (keywords_matched (classify_query ''security performance protocol''))
     (Enum_key PROCEDURE) = None \<and>
   primary_type (classify_query ''security performance protocol'') = PROTOCOL \<and>
   secondary_types (classify_query ''security performance protocol'') = {SECURITY, PERFORMANCE}"
  using keywords_matched_keyed_by_member_str [OF procedure_entry,
      of "''security performance protocol''" PROCEDURE]
  by (simp only: procedure_tiers_example) (simp add: classify_three_types)

section \<open>The prompt\<close>






















lemma sublist_skip: "sublist xs ys \<Longrightarrow> sublist xs (zs @ ys)"
  by (metis append_assoc sublist_def)




lemma all_excerpts_shape:
  "list_all excerpt_is_heading_and_two_bullets
     [PROCEDURE, ARCHITECTURE, PROTOCOL, INTERFACE, SECURITY, PERFORMANCE, QOS, RELIABILITY,
      DEPLOYMENT, INTERWORKING, MIGRATION, TROUBLESHOOTING, COMPLIANCE, FEATURE]"
  by code_simp

lemma excerpt_SECURITY:
  "template_excerpt SECURITY =
     [''        For security-related queries:'',
      ''        - Explain security mechanisms'',
      ''        - Detail key management'']"
  by code_simp

lemma excerpt_PERFORMANCE:
  "template_excerpt PERFORMANCE =
     [''        For performance-related queries:'',
      ''        - List key performance indicators'',
      ''        - Provide measurement methods'']"
  by code_simp


lemma secondary_contexts_as_excerpts_aux:
  "fold (\<lambda>secondary_type secondary_contexts.
        case SPECIALIZED_CONTEXTS secondary_type of
          Some context \<Rightarrow>
            (let context_lines = split_on NL context
             in secondary_contexts @ take 3 (drop 1 context_lines))
        | None \<Rightarrow> secondary_contexts)
       order acc
     = acc @ concat (map template_excerpt order)"
  by (induction order arbitrary: acc)
    (auto simp: template_excerpt_def Let_def split: option.splits)

lemma secondary_contexts_as_excerpts:
  "secondary_contexts_of order = concat (map template_excerpt order)"
  using secondary_contexts_as_excerpts_aux [of order "[]"]
  by (simp add: secondary_contexts_of_def)

lemma excerpt_shape:
  "t \<in> fst ` set QUERY_KEYWORDS \<Longrightarrow> excerpt_is_heading_and_two_bullets t"
  using all_excerpts_shape by (cases t) (simp_all add: QUERY_KEYWORDS_def)

lemma excerpt_shape_length:
  "excerpt_is_heading_and_two_bullets t \<Longrightarrow>
     SPECIALIZED_CONTEXTS t \<noteq> None \<and> length (template_excerpt t) = 3"
  by (auto simp: excerpt_is_heading_and_two_bullets_def split: option.splits list.splits)

lemma considerations_here:
  "sublist (a @ [NL] @ sp @ j @ [NL]) (a @ [NL] @ sp @ j @ [NL] @ r)"
proof -
  have "a @ [NL] @ sp @ j @ [NL] @ r = (a @ [NL] @ sp @ j @ [NL]) @ r" by simp
  then show ?thesis by (simp only: sublist_append_rightI)
qed

lemma prompt_contains_excerpts:
  assumes "secondary_contexts_of order \<noteq> []"
  shows "sublist (''Additional Considerations:'' @ [NL] @ ''        '' @
                    join [NL] (secondary_contexts_of order) @ [NL])
           (render_prompt c order user_query)"
  unfolding render_prompt_def Let_def if_P [OF assms]
  by (rule considerations_here | rule sublist_skip)+

lemma iteration_three_types:
  "set_iteration (secondary_types (classify_query ''security performance protocol''))
     [SECURITY, PERFORMANCE]"
  by (simp add: set_iteration_def classify_three_types)

lemma iteration_three_types_reversed:
  "set_iteration (secondary_types (classify_query ''security performance protocol''))
     [PERFORMANCE, SECURITY]"
  by (auto simp: set_iteration_def classify_three_types)

lemma secondary_contexts_forward:
  "secondary_contexts_of [SECURITY, PERFORMANCE] =
     [''        For security-related queries:'',
      ''        - Explain security mechanisms'',
      ''        - Detail key management'',
      ''        For performance-related queries:'',
      ''        - List key performance indicators'',
      ''        - Provide measurement methods'']"
  by (simp add: secondary_contexts_as_excerpts excerpt_SECURITY excerpt_PERFORMANCE)

lemma secondary_contexts_reversed:
  "secondary_contexts_of [PERFORMANCE, SECURITY] =
     [''        For performance-related queries:'',
      ''        - List key performance indicators'',
      ''        - Provide measurement methods'',
      ''        For security-related queries:'',
      ''        - Explain security mechanisms'',
      ''        - Detail key management'']"
  by (simp add: secondary_contexts_as_excerpts excerpt_SECURITY excerpt_PERFORMANCE)

lemma matches_one_secondary:
  "calculate_keyword_matches ''authentication optimization''
     = [(SECURITY, [(high_priority, [''authentication''])]),
        (PERFORMANCE, [(medium_priority, [''optimization''])])]"
  by code_simp

lemma classify_one_secondary:
  "classify_query ''authentication optimization''
     = \<lparr> primary_type = SECURITY, secondary_types = {PERFORMANCE},
         confidence_score = 1,
         keywords_matched =
           [(Str_key ''QueryType.SECURITY'', [(high_priority, [''authentication''])]),
            (Str_key ''QueryType.PERFORMANCE'', [(medium_priority, [''optimization''])])] \<rparr>"
proof -
  have ts: "type_scores_of (calculate_keyword_matches ''authentication optimization'')
     = [(SECURITY, 1), (PERFORMANCE, 6 / 10)]"
    by (simp add: matches_one_secondary type_scores_of_def calculate_confidence_score_def)
  show ?thesis
    unfolding classify_query_def Let_def ts
    by (simp add: matches_one_secondary sorted_types_of_def member_str_def)
qed

lemma secondary_contexts_nonempty:
  assumes "set_iteration (secondary_types (classify_query user_query)) order"
    and "secondary_types (classify_query user_query) \<noteq> {}"
  shows "secondary_contexts_of order \<noteq> []"
proof -
  obtain t rest where o: "order = t # rest"
    using assms by (cases order) (auto simp: set_iteration_def)
  then have "t \<in> secondary_types (classify_query user_query)"
    using assms(1) by (auto simp: set_iteration_def)
  then have "excerpt_is_heading_and_two_bullets t"
    by (intro excerpt_shape secondary_in_table)
  then have "length (template_excerpt t) = 3" by (simp add: excerpt_shape_length)
  then have "template_excerpt t \<noteq> []" by auto
  then show ?thesis using o by (simp add: secondary_contexts_as_excerpts)
qed

section \<open>The prompt determines the order of the traversal\<close>

lemma split_on_nonempty: "split_on sep s \<noteq> []"
  by (induction s) (auto split: list.splits)

lemma split_on_no_sep: "sep \<notin> set l \<Longrightarrow> split_on sep l = [l]"
  by (induction l) auto

lemma split_on_append_sep:
  "sep \<notin> set l \<Longrightarrow> split_on sep (l @ sep # r) = l # split_on sep r"
  by (induction l) (auto split: list.splits)

lemma split_on_lines_no_sep: "l \<in> set (split_on sep s) \<Longrightarrow> sep \<notin> set l"
proof (induction s arbitrary: l)
  case Nil
  then show ?case by simp
next
  case (Cons c s)
  show ?case
  proof (cases "c = sep")
    case True
    then show ?thesis using Cons by auto
  next
    case False
    obtain h r where hr: "split_on sep s = h # r"
      using split_on_nonempty [of sep s] by (cases "split_on sep s") auto
    then have "l = c # h \<or> l \<in> set r" using Cons.prems False by simp
    then show ?thesis
    proof
      assume "l = c # h"
      moreover have "sep \<notin> set h" using Cons.IH [of h] hr by simp
      ultimately show ?thesis using False by auto
    next
      assume "l \<in> set r"
      then show ?thesis using Cons.IH [of l] hr by simp
    qed
  qed
qed

lemma split_on_join:
  "xs \<noteq> [] \<Longrightarrow> \<forall>l \<in> set xs. sep \<notin> set l \<Longrightarrow> split_on sep (join [sep] xs) = xs"
proof (induction "[sep]" xs rule: join.induct)
  case 1
  then show ?case by simp
next
  case (2 x)
  then show ?case by (simp add: split_on_no_sep)
next
  case (3 x y ys)
  then show ?case by (simp add: split_on_append_sep)
qed

lemma length_join:
  "xs \<noteq> [] \<Longrightarrow> Suc (length (join [sep] xs)) = sum_list (map (\<lambda>l. Suc (length l)) xs)"
  by (induction "[sep]" xs rule: join.induct) simp_all

lemma excerpt_lines_no_NL: "l \<in> set (template_excerpt t) \<Longrightarrow> NL \<notin> set l"
proof -
  assume l: "l \<in> set (template_excerpt t)"
  show ?thesis
  proof (cases "SPECIALIZED_CONTEXTS t")
    case None
    then show ?thesis using l by (simp add: template_excerpt_def)
  next
    case (Some c)
    then have "l \<in> set (take 3 (drop 1 (split_on NL c)))"
      using l by (simp add: template_excerpt_def)
    then have "l \<in> set (split_on NL c)"
      by (meson in_set_dropD in_set_takeD)
    then show ?thesis by (rule split_on_lines_no_sep)
  qed
qed

lemma table_types_list:
  "fst ` set QUERY_KEYWORDS =
     set [PROCEDURE, ARCHITECTURE, PROTOCOL, INTERFACE, SECURITY, PERFORMANCE, QOS, RELIABILITY,
          DEPLOYMENT, INTERWORKING, MIGRATION, TROUBLESHOOTING, COMPLIANCE, FEATURE]"
  by (simp add: QUERY_KEYWORDS_def)

lemma excerpts_distinct:
  "distinct (map template_excerpt
     [PROCEDURE, ARCHITECTURE, PROTOCOL, INTERFACE, SECURITY, PERFORMANCE, QOS, RELIABILITY,
      DEPLOYMENT, INTERWORKING, MIGRATION, TROUBLESHOOTING, COMPLIANCE, FEATURE])"
  by code_simp

lemma template_excerpt_inj:
  assumes "a \<in> fst ` set QUERY_KEYWORDS" "b \<in> fst ` set QUERY_KEYWORDS"
    and "template_excerpt a = template_excerpt b"
  shows "a = b"
proof -
  have "inj_on template_excerpt (fst ` set QUERY_KEYWORDS)"
    using excerpts_distinct unfolding table_types_list by (simp only: distinct_map)
  then show ?thesis using assms(3,1,2) by (rule inj_onD)
qed

lemma excerpts_determine_order:
  assumes "set order1 \<subseteq> fst ` set QUERY_KEYWORDS" "set order2 \<subseteq> fst ` set QUERY_KEYWORDS"
    and "concat (map template_excerpt order1) = concat (map template_excerpt order2)"
  shows "order1 = order2"
  using assms
proof (induction order1 arbitrary: order2)
  case Nil
  show ?case
  proof (cases order2)
    case Nil
    then show ?thesis by simp
  next
    case (Cons b r)
    then have "length (template_excerpt b) = 3"
      using Nil.prems(2) by (intro conjunct2 [OF excerpt_shape_length] excerpt_shape) auto
    then have "template_excerpt b \<noteq> []" by auto
    then show ?thesis using Nil.prems(3) Cons by simp
  qed
next
  case (Cons a r)
  have la: "length (template_excerpt a) = 3"
    using Cons.prems(1) by (intro conjunct2 [OF excerpt_shape_length] excerpt_shape) auto
  show ?case
  proof (cases order2)
    case Nil
    have "template_excerpt a \<noteq> []" using la by auto
    then show ?thesis using Cons.prems(3) Nil by simp
  next
    case (Cons b r2)
    have lb: "length (template_excerpt b) = 3"
      using Cons.prems(2) Cons
      by (intro conjunct2 [OF excerpt_shape_length] excerpt_shape) auto
    have "template_excerpt a @ concat (map template_excerpt r)
            = template_excerpt b @ concat (map template_excerpt r2)"
      using Cons.prems(3) Cons by simp
    then have e: "template_excerpt a = template_excerpt b"
      and r: "concat (map template_excerpt r) = concat (map template_excerpt r2)"
      using la lb by simp_all
    have "a = b"
      using Cons.prems(1,2) Cons e by (intro template_excerpt_inj) auto
    moreover have "r = r2"
      using Cons.prems(1,2) Cons r by (intro Cons.IH) auto
    ultimately show ?thesis using Cons by simp
  qed
qed

lemma joined_excerpts_length:
  assumes "distinct order1" "distinct order2" "set order1 = set order2"
    and "secondary_contexts_of order1 \<noteq> []" "secondary_contexts_of order2 \<noteq> []"
  shows "length (join [NL] (secondary_contexts_of order1))
           = length (join [NL] (secondary_contexts_of order2))"
proof -
  have tot: "sum_list (map (\<lambda>l. Suc (length l)) (secondary_contexts_of order))
               = sum_list (map (\<lambda>t. sum_list (map (\<lambda>l. Suc (length l)) (template_excerpt t))) order)"
    for order
    unfolding secondary_contexts_as_excerpts by (induction order) simp_all
  have "sum_list (map (\<lambda>t. sum_list (map (\<lambda>l. Suc (length l)) (template_excerpt t))) order1)
      = sum_list (map (\<lambda>t. sum_list (map (\<lambda>l. Suc (length l)) (template_excerpt t))) order2)"
    using assms(1,2,3) by (simp add: sum_list_distinct_conv_sum_set)
  moreover have "Suc (length (join [NL] (secondary_contexts_of order1)))
      = sum_list (map (\<lambda>l. Suc (length l)) (secondary_contexts_of order1))"
    using assms(4) by (rule length_join)
  moreover have "Suc (length (join [NL] (secondary_contexts_of order2)))
      = sum_list (map (\<lambda>l. Suc (length l)) (secondary_contexts_of order2))"
    using assms(5) by (rule length_join)
  ultimately show ?thesis by (simp add: tot)
qed

lemma equal_prompts_equal_excerpts:
  assumes eq: "render_prompt c order1 q = render_prompt c order2 q"
    and ne1: "secondary_contexts_of order1 \<noteq> []"
    and ne2: "secondary_contexts_of order2 \<noteq> []"
    and len: "length (join [NL] (secondary_contexts_of order1))
                = length (join [NL] (secondary_contexts_of order2))"
  shows "join [NL] (secondary_contexts_of order1) = join [NL] (secondary_contexts_of order2)"
  using eq unfolding render_prompt_def Let_def if_P [OF ne1] if_P [OF ne2]
  by (simp only: same_append_eq append_eq_append_conv [OF disjI1 [OF len]])


lemma equal_prompts_same_order:
  assumes a1: "set_iteration (secondary_types (classify_query user_query)) order1"
    and a2: "set_iteration (secondary_types (classify_query user_query)) order2"
    and eq: "generate_prompt order1 user_query = generate_prompt order2 user_query"
  shows "order1 = order2"
proof (cases "secondary_types (classify_query user_query) = {}")
  case True
  then show ?thesis using a1 a2 by (simp add: set_iteration_def)
next
  case False
  have ne1: "secondary_contexts_of order1 \<noteq> []"
    using a1 False by (rule secondary_contexts_nonempty)
  have ne2: "secondary_contexts_of order2 \<noteq> []"
    using a2 False by (rule secondary_contexts_nonempty)
  have d1: "distinct order1" and d2: "distinct order2" and s: "set order1 = set order2"
    using a1 a2 by (simp_all add: set_iteration_def)
  have len: "length (join [NL] (secondary_contexts_of order1))
               = length (join [NL] (secondary_contexts_of order2))"
    using d1 d2 s ne1 ne2 by (rule joined_excerpts_length)
  have r: "render_prompt (classify_query user_query) order1 user_query
             = render_prompt (classify_query user_query) order2 user_query"
    using eq by (simp only: generate_prompt_def Let_def)
  have j: "join [NL] (secondary_contexts_of order1) = join [NL] (secondary_contexts_of order2)"
    using r ne1 ne2 len by (rule equal_prompts_equal_excerpts)
  have nl: "\<forall>l \<in> set (secondary_contexts_of order). NL \<notin> set l" for order
    unfolding secondary_contexts_as_excerpts using excerpt_lines_no_NL by auto
  have "split_on NL (join [NL] (secondary_contexts_of order1)) = secondary_contexts_of order1"
    using ne1 nl by (rule split_on_join)
  moreover have "split_on NL (join [NL] (secondary_contexts_of order2)) = secondary_contexts_of order2"
    using ne2 nl by (rule split_on_join)
  ultimately have "secondary_contexts_of order1 = secondary_contexts_of order2"
    using j by metis
  then have c: "concat (map template_excerpt order1) = concat (map template_excerpt order2)"
    by (simp only: secondary_contexts_as_excerpts)
  have t: "set order \<subseteq> fst ` set QUERY_KEYWORDS"
    if "set_iteration (secondary_types (classify_query user_query)) order" for order
    using that secondary_in_table by (auto simp: set_iteration_def)
  show ?thesis using t [OF a1] t [OF a2] c by (rule excerpts_determine_order)
qed

lemma secondary_types_finite: "finite (secondary_types (classify_query query))"
proof (cases "type_scores query = []")
  case True
  then show ?thesis by (simp add: classify_query_fallback GENERAL_fallback_def)
next
  case False
  show ?thesis
    unfolding classify_query_matched(3) [OF False] by (rule finite_set)
qed

lemma iteration_exists: "\<exists>order. set_iteration (secondary_types (classify_query query)) order"
  using finite_distinct_list [OF secondary_types_finite [of query]]
  by (auto simp: set_iteration_def)

lemma one_order_when_at_most_one:
  assumes "set_iteration S order1" "set_iteration S order2" "card S \<le> 1"
  shows "order1 = order2"
proof -
  have len: "length order \<le> 1" if "set_iteration S order" for order
  proof -
    have "distinct order" using that by (simp add: set_iteration_def)
    then have "card (set order) = length order" by (rule distinct_card)
    moreover have "set order = S" using that by (simp add: set_iteration_def)
    ultimately show ?thesis using assms(3) by simp
  qed
  have l1: "length order1 \<le> 1" using assms(1) by (rule len)
  have l2: "length order2 \<le> 1" using assms(2) by (rule len)
  have s: "set order1 = set order2" using assms(1,2) by (simp add: set_iteration_def)
  show ?thesis
  proof (cases order1)
    case Nil
    then show ?thesis using s by simp
  next
    case (Cons a r)
    then have r: "r = []" using l1 by simp
    then have "set order2 = {a}" using s Cons by simp
    moreover obtain b r' where o2: "order2 = b # r'"
      using calculation by (cases order2) auto
    moreover have "r' = []" using l2 o2 by simp
    ultimately show ?thesis using Cons r by simp
  qed
qed

lemma two_orders_when_two_members:
  assumes "finite S" "\<not> card S \<le> 1"
  shows "\<exists>order1 order2. set_iteration S order1 \<and> set_iteration S order2 \<and> order1 \<noteq> order2"
proof -
  obtain xs where xs: "set xs = S" "distinct xs"
    using finite_distinct_list [OF assms(1)] by blast
  then have "length xs = card S" by (metis distinct_card)
  then have "2 \<le> length xs" using assms(2) by simp
  then obtain a b r where abr: "xs = a # b # r"
    by (cases xs; cases "tl xs") auto
  have ab: "a \<noteq> b" using xs(2) abr by simp
  have "set_iteration S (a # b # r)" using xs abr by (simp add: set_iteration_def)
  moreover have "set_iteration S (b # a # r)"
    using xs abr by (auto simp: set_iteration_def)
  moreover have "a # b # r \<noteq> b # a # r" using ab by simp
  ultimately show ?thesis by blast
qed

section \<open>Properties of the prompt\<close>



text \<open>
  C1, as stated, fails: the excerpt does not skip the heading of the template. A template
  starts with a line break, so the line that \<open>context_lines[1:4]\<close> skips is empty, and
  the first line of the excerpt is the heading. For the secondary type \<open>SECURITY\<close> of
  this query the heading \<open>For security-related queries:\<close> follows the header
  \<open>Additional Considerations:\<close> in the prompt.
\<close>

theorem excerpt_skips_heading_counterexample:
  "SECURITY \<in> secondary_types (classify_query ''security performance protocol'') \<and>
   set_iteration (secondary_types (classify_query ''security performance protocol''))
     [SECURITY, PERFORMANCE] \<and>
   hd (split_on NL SECURITY_CONTEXT) = [] \<and>
   template_excerpt SECURITY =
     [''        For security-related queries:'',
      ''        - Explain security mechanisms'',
      ''        - Detail key management''] \<and>
   sublist (''Additional Considerations:'' @ [NL] @ ''        '' @
              ''        For security-related queries:'' @ [NL] @
              ''        - Explain security mechanisms'' @ [NL] @
              ''        - Detail key management'' @ [NL])
     (generate_prompt [SECURITY, PERFORMANCE] ''security performance protocol'')"
proof -
  have m: "SECURITY \<in> secondary_types (classify_query ''security performance protocol'')"
    by (simp add: classify_three_types)
  have e: "hd (split_on NL SECURITY_CONTEXT) = []"
    by code_simp
  have ne: "secondary_contexts_of [SECURITY, PERFORMANCE] \<noteq> []"
    by (simp add: secondary_contexts_forward)
  let ?p = "generate_prompt [SECURITY, PERFORMANCE] ''security performance protocol''"
  have "sublist (''Additional Considerations:'' @ [NL] @ ''        '' @
                    join [NL] (secondary_contexts_of [SECURITY, PERFORMANCE]) @ [NL]) ?p"
    unfolding generate_prompt_def Let_def by (rule prompt_contains_excerpts [OF ne])
  moreover have "prefix (''Additional Considerations:'' @ [NL] @ ''        '' @
              ''        For security-related queries:'' @ [NL] @
              ''        - Explain security mechanisms'' @ [NL] @
              ''        - Detail key management'' @ [NL])
      (''Additional Considerations:'' @ [NL] @ ''        '' @
                    join [NL] (secondary_contexts_of [SECURITY, PERFORMANCE]) @ [NL])"
    by (simp add: secondary_contexts_forward)
  ultimately have "sublist (''Additional Considerations:'' @ [NL] @ ''        '' @
              ''        For security-related queries:'' @ [NL] @
              ''        - Explain security mechanisms'' @ [NL] @
              ''        - Detail key management'' @ [NL]) ?p"
    by (meson prefix_imp_sublist sublist_order.order_trans)
  then show ?thesis
    using m e iteration_three_types excerpt_SECURITY by simp
qed

text \<open>
  C1, amended. When the classification has secondary types, the prompt contains, after
  the header \<open>Additional Considerations:\<close>, the excerpts of the templates of the
  secondary types, one after the other in the order in which the set of secondary types
  is traversed. Every secondary type has a template, and its excerpt is the second to
  fourth of the lines into which the template splits at line breaks (fewer if the
  template had fewer): the first line, which is skipped, is empty, and the excerpt is the
  heading of the template and its first two bullet lines.
\<close>

theorem prompt_contains_secondary_excerpts:
  assumes "set_iteration (secondary_types (classify_query user_query)) order"
    and "secondary_types (classify_query user_query) \<noteq> {}"
  shows "sublist (''Additional Considerations:'' @ [NL] @ ''        '' @
                    join [NL] (concat (map template_excerpt order)) @ [NL])
           (generate_prompt order user_query) \<and>
         (\<forall>t \<in> set order.
            (\<exists>context. SPECIALIZED_CONTEXTS t = Some context \<and>
               template_excerpt t = take 3 (drop 1 (split_on NL context))) \<and>
            excerpt_is_heading_and_two_bullets t)"
proof -
  have ne: "secondary_contexts_of order \<noteq> []"
    using assms by (rule secondary_contexts_nonempty)
  have "sublist (''Additional Considerations:'' @ [NL] @ ''        '' @
                    join [NL] (secondary_contexts_of order) @ [NL])
           (generate_prompt order user_query)"
    unfolding generate_prompt_def Let_def by (rule prompt_contains_excerpts [OF ne])
  then have first: "sublist (''Additional Considerations:'' @ [NL] @ ''        '' @
                    join [NL] (concat (map template_excerpt order)) @ [NL])
           (generate_prompt order user_query)"
    by (simp only: secondary_contexts_as_excerpts)
  have second: "\<forall>t \<in> set order.
            (\<exists>context. SPECIALIZED_CONTEXTS t = Some context \<and>
               template_excerpt t = take 3 (drop 1 (split_on NL context))) \<and>
            excerpt_is_heading_and_two_bullets t"
  proof
    fix t assume "t \<in> set order"
    then have "t \<in> secondary_types (classify_query user_query)"
      using assms(1) by (simp add: set_iteration_def)
    then have sh: "excerpt_is_heading_and_two_bullets t"
      by (intro excerpt_shape secondary_in_table)
    then obtain c where "SPECIALIZED_CONTEXTS t = Some c"
      using excerpt_shape_length by blast
    then have "SPECIALIZED_CONTEXTS t = Some c \<and>
               template_excerpt t = take 3 (drop 1 (split_on NL c))"
      by (simp add: template_excerpt_def)
    then show "(\<exists>context. SPECIALIZED_CONTEXTS t = Some context \<and>
               template_excerpt t = take 3 (drop 1 (split_on NL context))) \<and>
            excerpt_is_heading_and_two_bullets t"
      using sh by blast
  qed
  show ?thesis using first second by blast
qed

theorem prompt_contains_secondary_excerpts_witness:
  "set_iteration (secondary_types (classify_query ''authentication optimization''))
     [PERFORMANCE] \<and>
   secondary_types (classify_query ''authentication optimization'') \<noteq> {} \<and>
   sublist (''Additional Considerations:'' @ [NL] @ ''        '' @
              ''        For performance-related queries:'' @ [NL] @
              ''        - List key performance indicators'' @ [NL] @
              ''        - Provide measurement methods'' @ [NL])
     (generate_prompt [PERFORMANCE] ''authentication optimization'') \<and>
   excerpt_is_heading_and_two_bullets PERFORMANCE"
proof -
  have h1: "set_iteration (secondary_types (classify_query ''authentication optimization''))
     [PERFORMANCE]"
    by (simp add: set_iteration_def classify_one_secondary)
  have h2: "secondary_types (classify_query ''authentication optimization'') \<noteq> {}"
    by (simp add: classify_one_secondary)
  show ?thesis
    using prompt_contains_secondary_excerpts [OF h1 h2] h1 h2
    by (simp add: excerpt_PERFORMANCE)
qed

text \<open>
  C9, as stated, fails for the prompt: one and the same query, with one and the same
  classification, yields different prompts in two runs that traverse the set of secondary
  types in different orders.
\<close>

theorem prompt_depends_on_iteration_order_counterexample:
  "set_iteration (secondary_types (classify_query ''security performance protocol''))
     [SECURITY, PERFORMANCE] \<and>
   set_iteration (secondary_types (classify_query ''security performance protocol''))
     [PERFORMANCE, SECURITY] \<and>
   generate_prompt [SECURITY, PERFORMANCE] ''security performance protocol''
     \<noteq> generate_prompt [PERFORMANCE, SECURITY] ''security performance protocol''"
proof -
  have "generate_prompt [SECURITY, PERFORMANCE] ''security performance protocol''
     \<noteq> generate_prompt [PERFORMANCE, SECURITY] ''security performance protocol''"
    unfolding generate_prompt_def Let_def render_prompt_def
      secondary_contexts_forward secondary_contexts_reversed
    by simp
  then show ?thesis
    using iteration_three_types iteration_three_types_reversed by simp
qed

text \<open>
  C9, amended. The classification of a query is the same in every run, and every run
  renders the prompt from it. What a run adds is the order in which it traverses the set
  of secondary types, which the program does not fix; at least one such order exists.
  Two runs on the same query yield the same prompt if and only if they traverse the set
  in the same order, so all runs yield the same prompt exactly when the classification
  has at most one secondary type.
\<close>

theorem prompt_same_iff_same_iteration_order:
  "(\<forall>order. generate_prompt order user_query
              = render_prompt (classify_query user_query) order user_query) \<and>
   (\<exists>order. set_iteration (secondary_types (classify_query user_query)) order) \<and>
   (\<forall>order1 order2.
      set_iteration (secondary_types (classify_query user_query)) order1 \<and>
      set_iteration (secondary_types (classify_query user_query)) order2 \<longrightarrow>
      (generate_prompt order1 user_query = generate_prompt order2 user_query
         \<longleftrightarrow> order1 = order2)) \<and>
   ((\<forall>order1 order2.
       set_iteration (secondary_types (classify_query user_query)) order1 \<and>
       set_iteration (secondary_types (classify_query user_query)) order2 \<longrightarrow>
       generate_prompt order1 user_query = generate_prompt order2 user_query)
    \<longleftrightarrow> card (secondary_types (classify_query user_query)) \<le> 1)"
proof -
  let ?S = "secondary_types (classify_query user_query)"
  have p1: "\<forall>order. generate_prompt order user_query
              = render_prompt (classify_query user_query) order user_query"
    by (simp add: generate_prompt_def)
  have p2: "\<exists>order. set_iteration ?S order" by (rule iteration_exists)
  have p3: "\<forall>order1 order2. set_iteration ?S order1 \<and> set_iteration ?S order2 \<longrightarrow>
      (generate_prompt order1 user_query = generate_prompt order2 user_query
         \<longleftrightarrow> order1 = order2)"
  proof (intro allI impI)
    fix order1 order2
    assume a: "set_iteration ?S order1 \<and> set_iteration ?S order2"
    show "generate_prompt order1 user_query = generate_prompt order2 user_query
            \<longleftrightarrow> order1 = order2"
    proof
      assume "generate_prompt order1 user_query = generate_prompt order2 user_query"
      with a show "order1 = order2"
        using equal_prompts_same_order [of user_query order1 order2] by simp
    next
      assume "order1 = order2"
      then show "generate_prompt order1 user_query = generate_prompt order2 user_query"
        by simp
    qed
  qed
  have p4: "(\<forall>order1 order2. set_iteration ?S order1 \<and> set_iteration ?S order2 \<longrightarrow>
       generate_prompt order1 user_query = generate_prompt order2 user_query)
    \<longleftrightarrow> card ?S \<le> 1"
  proof
    assume all: "\<forall>order1 order2. set_iteration ?S order1 \<and> set_iteration ?S order2 \<longrightarrow>
       generate_prompt order1 user_query = generate_prompt order2 user_query"
    show "card ?S \<le> 1"
    proof (rule ccontr)
      assume "\<not> card ?S \<le> 1"
      then obtain order1 order2 where o: "set_iteration ?S order1" "set_iteration ?S order2"
        "order1 \<noteq> order2"
        using two_orders_when_two_members [OF secondary_types_finite] by blast
      have "generate_prompt order1 user_query = generate_prompt order2 user_query"
        using all [rule_format, OF conjI [OF o(1) o(2)]] .
      then have "order1 = order2"
        using o(1,2) by (rule equal_prompts_same_order [rotated 2])
      then show False using o(3) by simp
    qed
  next
    assume "card ?S \<le> 1"
    show "\<forall>order1 order2. set_iteration ?S order1 \<and> set_iteration ?S order2 \<longrightarrow>
       generate_prompt order1 user_query = generate_prompt order2 user_query"
    proof (intro allI impI)
      fix order1 order2
      assume a: "set_iteration ?S order1 \<and> set_iteration ?S order2"
      have "order1 = order2"
        using conjunct1 [OF a] conjunct2 [OF a] \<open>card ?S \<le> 1\<close>
        by (rule one_order_when_at_most_one)
      then show "generate_prompt order1 user_query = generate_prompt order2 user_query"
        by simp
    qed
  qed
  show ?thesis by (intro conjI p1 p2 p3 p4)
qed

theorem prompt_same_iff_same_iteration_order_witness:
  "set_iteration (secondary_types (classify_query ''security performance protocol''))
     [SECURITY, PERFORMANCE] \<and>
   set_iteration (secondary_types (classify_query ''security performance protocol''))
     [PERFORMANCE, SECURITY] \<and>
   card (secondary_types (classify_query ''security performance protocol'')) = 2 \<and>
   generate_prompt [SECURITY, PERFORMANCE] ''security performance protocol''
     \<noteq> generate_prompt [PERFORMANCE, SECURITY] ''security performance protocol'' \<and>
   card (secondary_types (classify_query ''authentication optimization'')) = 1 \<and>
   set_iteration (secondary_types (classify_query ''authentication optimization''))
     [PERFORMANCE]"
proof -
  have c2: "card (secondary_types (classify_query ''security performance protocol'')) = 2"
    by (simp add: classify_three_types)
  have c1: "card (secondary_types (classify_query ''authentication optimization'')) = 1"
    by (simp add: classify_one_secondary)
  have i1: "set_iteration (secondary_types (classify_query ''authentication optimization''))
     [PERFORMANCE]"
    by (simp add: set_iteration_def classify_one_secondary)
  note t = prompt_same_iff_same_iteration_order [of "''security performance protocol''"]
  have "generate_prompt [SECURITY, PERFORMANCE] ''security performance protocol''
          = generate_prompt [PERFORMANCE, SECURITY] ''security performance protocol''
        \<longleftrightarrow> [SECURITY, PERFORMANCE] = [PERFORMANCE, SECURITY]"
    using t [THEN conjunct2, THEN conjunct2, THEN conjunct1, rule_format,
        OF conjI [OF iteration_three_types iteration_three_types_reversed]] .
  then show ?thesis
    using c1 c2 i1 iteration_three_types iteration_three_types_reversed by simp
qed

end
